theory Spec2Isabelle
  imports Complex_Main
begin

section \<open>Values, outcomes and the variable table\<close>

text \<open>
  The calculator of \<^verbatim>\<open>calculator.py\<close> works on Python objects: the postfix list holds
  ints and strs, the operator stack holds one-character strs, the table \<^verbatim>\<open>variables\<close>
  maps names to whatever \<^verbatim>\<open>rpn_to_result\<close> returned. A string is a list of code points
  below 256 (the type \<open>char\<close>); strings with other characters are outside the model.
  Errors are reported by the source as sentinel strings (\<^verbatim>\<open>"Error"\<close> from the converter,
  \<^verbatim>\<open>"Invalid expression"\<close> and \<^verbatim>\<open>"Unknown variable"\<close> from the evaluator); the
  evaluator's sentinels are kept as string values, since \<^verbatim>\<open>parse_assignment\<close> compares
  the returned object with them.

  A power with a negative exponent makes Python leave the integers: the result is a
  float, and later operations on it give floats (or complex numbers) again. These
  numbers are values of the unspecified type \<open>pynum\<close>.
\<close>

typedecl pynum

datatype pyval = PInt int | PStr string | PNum pynum

text \<open>The Python exceptions that the source does not catch.\<close>

datatype stop = TypeError | ZeroDivisionError | IndexError | OverflowError

datatype conv_error = Error

type_synonym env = "string \<rightharpoonup> pyval"

text \<open>
  Python's arithmetic on numbers that are not ints is not defined here: it is a
  parameter of the model. \<open>num_arith nm op x y\<close> is the outcome of \<^verbatim>\<open>x op y\<close> when an
  operand is such a number or the result is one, and \<open>num_is_zero nm f\<close> is the outcome
  of \<^verbatim>\<open>f == 0\<close>. Every statement below holds for every choice of the parameter.
\<close>

record numerics =
  num_arith :: "char \<Rightarrow> pyval \<Rightarrow> pyval \<Rightarrow> stop + pyval"
  num_is_zero :: "pynum \<Rightarrow> bool"

definition digits :: string where
  "digits = ''0123456789''"

definition ascii_letters :: string where
  "ascii_letters = ''abcdefghijklmnopqrstuvwxyzABCDEFGHIJKLMNOPQRSTUVWXYZ''"

text \<open>\<^verbatim>\<open>int(c)\<close> for a digit character.\<close>

definition int_of_digit :: "char \<Rightarrow> int" where
  "int_of_digit c = int (of_char c) - 48"

text \<open>Python's \<^verbatim>\<open>s in t\<close> on strings: \<open>s\<close> occurs in \<open>t\<close> as a substring.\<close>

fun str_in :: "string \<Rightarrow> string \<Rightarrow> bool" where
  "str_in s [] = (s = [])"
| "str_in s (c # t) = (take (length s) (c # t) = s \<or> str_in s t)"

text \<open>
  \<^verbatim>\<open>s.isalpha()\<close>: the string is not empty and all its characters are letters. Among
  the code points below 256 the letters of Unicode are \<open>A\<close> to \<open>Z\<close>, \<open>a\<close> to \<open>z\<close>, 170, 181,
  186, 192 to 214, 216 to 246 and 248 to 255.
\<close>

definition unicode_letter :: "char \<Rightarrow> bool" where
  "unicode_letter c =
     (let n = (of_char c :: nat) in
        (65 \<le> n \<and> n \<le> 90) \<or> (97 \<le> n \<and> n \<le> 122) \<or> n = 170 \<or> n = 181 \<or> n = 186
        \<or> (192 \<le> n \<and> n \<le> 214) \<or> (216 \<le> n \<and> n \<le> 246) \<or> (248 \<le> n \<and> n \<le> 255))"

definition isalpha :: "string \<Rightarrow> bool" where
  "isalpha s = (s \<noteq> [] \<and> list_all unicode_letter s)"

section \<open>Arithmetic on Python objects\<close>

text \<open>
  \<^verbatim>\<open>+\<close> adds ints and concatenates strs; \<^verbatim>\<open>*\<close> multiplies ints and repeats a str;
  \<^verbatim>\<open>-\<close>, \<^verbatim>\<open>//\<close> and \<^verbatim>\<open>**\<close> are defined on ints and not on strs. \<^verbatim>\<open>//\<close> on ints is
  floor division, as \<open>div\<close> on \<open>int\<close> is. A str combined with a number that is not an int
  raises TypeError; every other case with such a number goes to the parameter, as does
  an int raised to a negative int (a float, unless the base is zero).
\<close>

fun py_add :: "numerics \<Rightarrow> pyval \<Rightarrow> pyval \<Rightarrow> stop + pyval" where
  "py_add nm (PInt a) (PInt b) = Inr (PInt (a + b))"
| "py_add nm (PStr a) (PStr b) = Inr (PStr (a @ b))"
| "py_add nm (PInt a) (PStr b) = Inl TypeError"
| "py_add nm (PStr a) (PInt b) = Inl TypeError"
| "py_add nm (PStr a) (PNum g) = Inl TypeError"
| "py_add nm (PNum f) (PStr b) = Inl TypeError"
| "py_add nm x y = num_arith nm CHR ''+'' x y"

fun py_mul :: "numerics \<Rightarrow> pyval \<Rightarrow> pyval \<Rightarrow> stop + pyval" where
  "py_mul nm (PInt a) (PInt b) = Inr (PInt (a * b))"
| "py_mul nm (PInt a) (PStr s) = Inr (PStr (concat (replicate (nat a) s)))"
| "py_mul nm (PStr s) (PInt b) = Inr (PStr (concat (replicate (nat b) s)))"
| "py_mul nm (PStr a) (PStr b) = Inl TypeError"
| "py_mul nm (PStr a) (PNum g) = Inl TypeError"
| "py_mul nm (PNum f) (PStr b) = Inl TypeError"
| "py_mul nm x y = num_arith nm CHR ''*'' x y"

fun py_sub :: "numerics \<Rightarrow> pyval \<Rightarrow> pyval \<Rightarrow> stop + pyval" where
  "py_sub nm (PInt a) (PInt b) = Inr (PInt (a - b))"
| "py_sub nm (PStr a) y = Inl TypeError"
| "py_sub nm x (PStr b) = Inl TypeError"
| "py_sub nm x y = num_arith nm CHR ''-'' x y"

fun py_floordiv :: "numerics \<Rightarrow> pyval \<Rightarrow> pyval \<Rightarrow> stop + pyval" where
  "py_floordiv nm (PInt a) (PInt b) =
     (if b = 0 then Inl ZeroDivisionError else Inr (PInt (a div b)))"
| "py_floordiv nm (PStr a) y = Inl TypeError"
| "py_floordiv nm x (PStr b) = Inl TypeError"
| "py_floordiv nm x y = num_arith nm CHR ''/'' x y"

fun py_pow :: "numerics \<Rightarrow> pyval \<Rightarrow> pyval \<Rightarrow> stop + pyval" where
  "py_pow nm (PInt a) (PInt b) =
     (if 0 \<le> b then Inr (PInt (a ^ nat b))
      else if a = 0 then Inl ZeroDivisionError
      else num_arith nm CHR ''^'' (PInt a) (PInt b))"
| "py_pow nm (PStr a) y = Inl TypeError"
| "py_pow nm x (PStr b) = Inl TypeError"
| "py_pow nm x y = num_arith nm CHR ''^'' x y"

text \<open>\<^verbatim>\<open>divisor == 0\<close>: a str is never equal to \<open>0\<close>.\<close>

fun py_is_zero :: "numerics \<Rightarrow> pyval \<Rightarrow> bool" where
  "py_is_zero nm (PInt b) = (b = 0)"
| "py_is_zero nm (PStr s) = False"
| "py_is_zero nm (PNum f) = num_is_zero nm f"

section \<open>The converter \<^verbatim>\<open>infix_to_rpn\<close>\<close>

text \<open>
  The state of the scan is the output list \<open>result\<close>, the operator stack (a deque in the
  source, its right end is the head of the list here) and the index \<open>i\<close>.
\<close>

type_synonym scan_state = "pyval list \<times> string list \<times> nat"

text \<open>The inner loops that read an integer, a name, a run of pluses, a run of minuses.\<close>

function scan_integer :: "string \<Rightarrow> nat \<Rightarrow> int \<Rightarrow> int \<times> nat" where
  "scan_integer infx i integer =
     (if i < length infx \<and> infx ! i \<in> set digits
      then scan_integer infx (i + 1) (integer * 10 + int_of_digit (infx ! i))
      else (integer, i))"
  by pat_completeness auto
termination
  by (relation "measure (\<lambda>(infx, i, integer). length infx - i)") auto

function scan_name :: "string \<Rightarrow> nat \<Rightarrow> string \<Rightarrow> string \<times> nat" where
  "scan_name infx i var_name =
     (if i < length infx \<and> infx ! i \<in> set ascii_letters
      then scan_name infx (i + 1) (var_name @ [infx ! i])
      else (var_name, i))"
  by pat_completeness auto
termination
  by (relation "measure (\<lambda>(infx, i, var_name). length infx - i)") auto

function skip_pluses :: "string \<Rightarrow> nat \<Rightarrow> nat" where
  "skip_pluses infx i =
     (if i < length infx \<and> infx ! i = CHR ''+'' then skip_pluses infx (i + 1) else i)"
  by pat_completeness auto
termination
  by (relation "measure (\<lambda>(infx, i). length infx - i)") auto

function count_minuses :: "string \<Rightarrow> nat \<Rightarrow> nat \<Rightarrow> nat \<times> nat" where
  "count_minuses infx i minuses =
     (if i < length infx \<and> infx ! i = CHR ''-''
      then count_minuses infx (i + 1) (minuses + 1)
      else (minuses, i))"
  by pat_completeness auto
termination
  by (relation "measure (\<lambda>(infx, i, minuses). length infx - i)") auto

text \<open>
  \<^verbatim>\<open>while stack and P(stack[-1]): result.append(stack.pop())\<close>
\<close>

fun pop_while :: "(string \<Rightarrow> bool) \<Rightarrow> pyval list \<Rightarrow> string list \<Rightarrow> pyval list \<times> string list" where
  "pop_while P result [] = (result, [])"
| "pop_while P result (s # stack) =
     (if P s then pop_while P (result @ [PStr s]) stack else (result, s # stack))"

text \<open>Lines 82 to 89: a unary sign at the start, after an operator or after \<^verbatim>\<open>(\<close>.\<close>

definition unary_sign :: "string \<Rightarrow> scan_state \<Rightarrow> conv_error + scan_state" where
  "unary_sign infx st = (case st of (result, stack, i) \<Rightarrow>
     if infx ! i \<in> set ''+-'' \<and> (i = 0 \<or> infx ! (i - 1) \<in> set ''^*/+-('')
     then
       if i = length infx - 1
          \<or> (infx ! (i + 1) \<notin> set digits \<and> infx ! (i + 1) \<notin> set ascii_letters
              \<and> infx ! (i + 1) \<noteq> CHR ''('')
       then Inl Error
       else Inr (result, (if infx ! i = CHR ''-'' then ''#'' # stack else stack), i + 1)
     else Inr st)"

text \<open>Lines 92 to 112: an integer or a variable name, or an unacceptable symbol.\<close>

definition operand :: "string \<Rightarrow> scan_state \<Rightarrow> conv_error + scan_state" where
  "operand infx st = (case st of (result, stack, i) \<Rightarrow>
     if i < length infx \<and> (infx ! i \<in> set digits \<or> infx ! i \<in> set ascii_letters)
     then
       if infx ! i \<in> set digits
       then (case scan_integer infx i 0 of (integer, i') \<Rightarrow>
               Inr (result @ [PInt integer], stack, i'))
       else (case scan_name infx i [] of (var_name, i') \<Rightarrow>
               Inr (result @ [PStr var_name], stack, i'))
     else if i < length infx \<and> infx ! i \<notin> set ''+-*/^()'' then Inl Error
     else Inr st)"

text \<open>Lines 115 to 169: an operator or a parenthesis.\<close>

definition operator :: "string \<Rightarrow> scan_state \<Rightarrow> conv_error + scan_state" where
  "operator infx st = (case st of (result, stack, i) \<Rightarrow>
     if i < length infx \<and> infx ! i \<in> set ''+-*/^()''
     then
       if infx ! i = CHR ''('' then Inr (result, ''('' # stack, i + 1)
       else if infx ! i = CHR ''+'' then
         (case pop_while (\<lambda>s. str_in s ''+-*/^#'') result stack of (result', stack') \<Rightarrow>
            Inr (result', ''+'' # stack', skip_pluses infx i))
       else if infx ! i = CHR ''-'' then
         (case pop_while (\<lambda>s. str_in s ''+-*/^#'') result stack of (result', stack') \<Rightarrow>
            (case count_minuses infx i 0 of (minuses, i') \<Rightarrow>
               if minuses mod 2 \<noteq> 0 then Inr (result', ''-'' # stack', i')
               else Inr (result', ''+'' # stack', i')))
       else if infx ! i \<in> set ''*/'' then
         if i < length infx - 1 \<and> infx ! (i + 1) = infx ! i then Inl Error
         else (case pop_while (\<lambda>s. str_in s ''*/^#'') result stack of (result', stack') \<Rightarrow>
                 Inr (result', [infx ! i] # stack', i + 1))
       else if infx ! i = CHR ''^'' then
         if i < length infx - 1 \<and> infx ! (i + 1) = infx ! i then Inl Error
         else (case pop_while (\<lambda>s. s = ''^#'') result stack of (result', stack') \<Rightarrow>
                 Inr (result', [infx ! i] # stack', i + 1))
       else if infx ! i = CHR '')'' then
         (case pop_while (\<lambda>s. s \<noteq> ''('') result stack of (result', stack') \<Rightarrow>
            (case stack' of [] \<Rightarrow> Inl Error
             | _ # stack'' \<Rightarrow> Inr (result', stack'', i + 1)))
       else Inr st
     else Inr st)"

text \<open>One pass through the body of the scan loop (entered with \<open>i < length infx\<close>).\<close>

definition scan_step :: "string \<Rightarrow> scan_state \<Rightarrow> conv_error + scan_state" where
  "scan_step infx st =
     (case unary_sign infx st of Inl e \<Rightarrow> Inl e
      | Inr st1 \<Rightarrow>
          (case operand infx st1 of Inl e \<Rightarrow> Inl e
           | Inr st2 \<Rightarrow> operator infx st2))"

text \<open>Lines 172 to 177: the operators left on the stack go to the output.\<close>

fun drain :: "pyval list \<Rightarrow> string list \<Rightarrow> conv_error + pyval list" where
  "drain result [] = Inr result"
| "drain result (s # stack) =
     (if s = ''('' then Inl Error else drain (result @ [PStr s]) stack)"

text \<open>
  The scan loop. Nothing in its form bounds the number of passes, so it is defined as a
  partial function: \<open>None\<close> stands for a loop that does not return.
\<close>

partial_function (option) scan_loop ::
  "string \<Rightarrow> pyval list \<Rightarrow> string list \<Rightarrow> nat \<Rightarrow> (conv_error + pyval list) option" where
  "scan_loop infx result stack i =
     (if i < length infx
      then (case scan_step infx (result, stack, i) of
              Inl e \<Rightarrow> Some (Inl e)
            | Inr (result', stack', i') \<Rightarrow> scan_loop infx result' stack' i')
      else Some (drain result stack))"

definition infix_to_rpn :: "string \<Rightarrow> (conv_error + pyval list) option" where
  "infix_to_rpn infx = scan_loop infx [] [] 0"

section \<open>The evaluator \<^verbatim>\<open>rpn_to_result\<close>\<close>

text \<open>
  The evaluation stack has its top at the head. The loop over the postfix list returns
  early with a sentinel string, stops with an exception, or falls through to the checks
  after the loop, which are the equation for the empty list. An element that is neither
  an int nor a str fails the \<^verbatim>\<open>in\<close> test of line 201 with a TypeError.
\<close>

fun rpn_loop :: "numerics \<Rightarrow> env \<Rightarrow> pyval list \<Rightarrow> pyval list \<Rightarrow> stop + pyval" where
  "rpn_loop nm variables stack [] =
     (if length stack > 1 then Inr (PStr ''Invalid expression'')
      else if length stack = 0 then Inr (PStr '''')
      else Inr (hd stack))"
| "rpn_loop nm variables stack (PInt n # rest) = rpn_loop nm variables (PInt n # stack) rest"
| "rpn_loop nm variables stack (PNum f # rest) = Inl TypeError"
| "rpn_loop nm variables stack (PStr s # rest) =
     (if s = ''#'' then
        (case stack of [] \<Rightarrow> Inr (PStr ''Invalid expression'')
         | x # stack' \<Rightarrow>
             (case py_mul nm (PInt (- 1)) x of Inl e \<Rightarrow> Inl e
              | Inr v \<Rightarrow> rpn_loop nm variables (v # stack') rest))
      else if str_in s ''+-*/^'' then
        (case stack of
           y # x # stack' \<Rightarrow>
             if s = ''+'' then
               (case py_add nm y x of Inl e \<Rightarrow> Inl e
                | Inr v \<Rightarrow> rpn_loop nm variables (v # stack') rest)
             else if s = ''*'' then
               (case py_mul nm y x of Inl e \<Rightarrow> Inl e
                | Inr v \<Rightarrow> rpn_loop nm variables (v # stack') rest)
             else if s = ''^'' then
               (case py_pow nm x y of Inl e \<Rightarrow> Inl e
                | Inr v \<Rightarrow> rpn_loop nm variables (v # stack') rest)
             else if s = ''-'' then
               (case py_sub nm x y of Inl e \<Rightarrow> Inl e
                | Inr v \<Rightarrow> rpn_loop nm variables (v # stack') rest)
             else if s = ''/'' then
               if py_is_zero nm y then Inr (PStr ''Invalid expression'')
               else (case py_floordiv nm x y of Inl e \<Rightarrow> Inl e
                     | Inr v \<Rightarrow> rpn_loop nm variables (v # stack') rest)
             else rpn_loop nm variables stack rest
         | _ \<Rightarrow> Inr (PStr ''Invalid expression''))
      else
        (case variables s of None \<Rightarrow> Inr (PStr ''Unknown variable'')
         | Some v \<Rightarrow> rpn_loop nm variables (v # stack) rest))"

definition rpn_to_result :: "numerics \<Rightarrow> env \<Rightarrow> pyval list \<Rightarrow> stop + pyval" where
  "rpn_to_result nm variables rpn_list = rpn_loop nm variables [] rpn_list"

section \<open>\<^verbatim>\<open>parse_expression\<close> and \<^verbatim>\<open>parse_assignment\<close>\<close>

definition parse_expression :: "numerics \<Rightarrow> env \<Rightarrow> string \<Rightarrow> (stop + pyval) option" where
  "parse_expression nm variables infx =
     (case infix_to_rpn infx of None \<Rightarrow> None
      | Some (Inl Error) \<Rightarrow> Some (Inr (PStr ''Invalid expression''))
      | Some (Inr rpn_list) \<Rightarrow> Some (rpn_to_result nm variables rpn_list))"

text \<open>\<^verbatim>\<open>line.split("=", 1)\<close>\<close>

definition split_eq :: "string \<Rightarrow> string list" where
  "split_eq line =
     (if CHR ''='' \<in> set line
      then [takeWhile (\<lambda>c. c \<noteq> CHR ''='') line, tl (dropWhile (\<lambda>c. c \<noteq> CHR ''='') line)]
      else [line])"

text \<open>
  \<^verbatim>\<open>parse_assignment\<close> prints at most one message and may update the table; the model
  returns the printed lines and the table after the call.
\<close>

definition parse_assignment ::
  "numerics \<Rightarrow> env \<Rightarrow> string \<Rightarrow> (stop + string list \<times> env) option" where
  "parse_assignment nm variables line =
     (let parts = split_eq line in
      if parts ! 0 = [] then Some (Inr ([''Invalid expression''], variables))
      else if \<not> isalpha (parts ! 0) then Some (Inr ([''Invalid identifier''], variables))
      else if length parts < 2 then Some (Inl IndexError)
      else if parts ! 1 = [] then Some (Inr ([''Invalid assignment''], variables))
      else if isalpha (parts ! 1) \<and> variables (parts ! 1) = None
        then Some (Inr ([''Unknown variable''], variables))
      else
        (case parse_expression nm variables (parts ! 1) of None \<Rightarrow> None
         | Some (Inl e) \<Rightarrow> Some (Inl e)
         | Some (Inr result) \<Rightarrow>
             if result = PStr ''Invalid expression'' \<or> result = PStr ''Unknown variable''
             then Some (Inr ([''Invalid assignment''], variables))
             else Some (Inr ([], variables(parts ! 0 \<mapsto> result)))))"

section \<open>Arithmetic expressions and their standard value\<close>

text \<open>
  The reference the calculator is compared with. It is not taken from the source: it
  writes down the expressions over integer literals, \<^verbatim>\<open>+ - * / ^\<close> and parentheses,
  and the value ordinary arithmetic gives them.

  An expression is a syntax tree; \<open>arith_str\<close> is the input string it stands for. The
  grammar has five levels, from loosest to tightest binding:
  \<^item> level 0: a sum, \<open>a + b\<close> or \<open>a - b\<close>, grouping to the left, whose right operand is
    a product or tighter;
  \<^item> level 1: a product, \<open>a * b\<close> or \<open>a / b\<close>, grouping to the left, whose right operand
    is a signed expression or tighter;
  \<^item> level 2: a unary sign before a signed expression or a power (signs may be stacked,
    as in \<^verbatim>\<open>--5\<close>);
  \<^item> level 3: a power \<open>a ^ b\<close>, grouping to the right, whose base is an atom and whose
    exponent may carry signs;
  \<^item> level 4: an atom, a non-empty string of digits or an expression in parentheses.

  The value is the usual one: a literal has its decimal value, \<^verbatim>\<open>/\<close> is floor
  division, a unary minus negates the operand after it
  (\<^verbatim>\<open>-2^2\<close> is \<open>-(2^2)\<close>, \<^verbatim>\<open>-7/2\<close> is \<open>(-7)/2\<close>, \<^verbatim>\<open>2--7/2\<close> is \<open>2-((-7)/2)\<close>). Division by
  zero and a negative exponent have no integer value.
\<close>

datatype arith =
    ALit string
  | AParen arith
  | APow arith arith
  | ANeg arith
  | APos arith
  | AMul arith arith
  | ADiv arith arith
  | AAdd arith arith
  | ASub arith arith




text \<open>The decimal value of a string of digits.\<close>

definition lit_value :: "string \<Rightarrow> int" where
  "lit_value ds = foldl (\<lambda>a c. a * 10 + int_of_digit c) 0 ds"



section \<open>Expressions with sign runs, as the calculator reads them\<close>

text \<open>
  The converter does not read a sign after a binary \<^verbatim>\<open>+\<close> or \<^verbatim>\<open>-\<close> as a unary sign of
  the right operand when it is the same character: it reads the whole run of equal
  signs as one operator. The trees below follow that reading; they describe what the
  calculator computes, not what ordinary arithmetic says. They have the five levels of
  the grammar above, with two differences: between the operands of a sum stands a run of
  \<open>k \<ge> 1\<close> equal signs (\<open>Add k\<close>, \<open>Sub k\<close>), and a unary sign stands before a power or an
  atom only. \<open>str_of\<close> is the input string of a tree.

  \<open>run_value\<close> is the value under the calculator's reading: a run of plus signs is
  one addition; a run of \<open>k\<close> minus signs is one subtraction when \<open>k\<close> is odd and one
  addition when \<open>k\<close> is even. Everything else is as in \<open>arith_value\<close>.
\<close>

datatype expr =
    Lit string
  | Paren expr
  | Pow expr expr
  | Neg expr
  | Pos expr
  | Mul expr expr
  | Div expr expr
  | Add nat expr expr
  | Sub nat expr expr

fun str_of :: "expr \<Rightarrow> string" where
  "str_of (Lit ds) = ds"
| "str_of (Paren e) = ''('' @ str_of e @ '')''"
| "str_of (Pow a b) = str_of a @ ''^'' @ str_of b"
| "str_of (Neg a) = ''-'' @ str_of a"
| "str_of (Pos a) = ''+'' @ str_of a"
| "str_of (Mul a b) = str_of a @ ''*'' @ str_of b"
| "str_of (Div a b) = str_of a @ ''/'' @ str_of b"
| "str_of (Add k a b) = str_of a @ replicate k CHR ''+'' @ str_of b"
| "str_of (Sub k a b) = str_of a @ replicate k CHR ''-'' @ str_of b"

fun lvl :: "expr \<Rightarrow> nat" where
  "lvl (Add k a b) = 0"
| "lvl (Sub k a b) = 0"
| "lvl (Mul a b) = 1"
| "lvl (Div a b) = 1"
| "lvl (Neg a) = 2"
| "lvl (Pos a) = 2"
| "lvl (Pow a b) = 3"
| "lvl (Lit ds) = 4"
| "lvl (Paren e) = 4"

text \<open>
  The right operand of a sum is a product or tighter, and does not begin with the sign
  of the run before it (the sign would belong to the run); the right operand of a
  product is a signed power or tighter; a sign stands before a power; the base of a
  power is an atom.
\<close>

fun run_well_formed :: "expr \<Rightarrow> bool" where
  "run_well_formed (Lit ds) = (ds \<noteq> [] \<and> set ds \<subseteq> set digits)"
| "run_well_formed (Paren e) = run_well_formed e"
| "run_well_formed (Pow a b) = (run_well_formed a \<and> run_well_formed b \<and> lvl a = 4 \<and> 2 \<le> lvl b)"
| "run_well_formed (Neg a) = (run_well_formed a \<and> 3 \<le> lvl a)"
| "run_well_formed (Pos a) = (run_well_formed a \<and> 3 \<le> lvl a)"
| "run_well_formed (Mul a b) = (run_well_formed a \<and> run_well_formed b \<and> 1 \<le> lvl a \<and> 2 \<le> lvl b)"
| "run_well_formed (Div a b) = (run_well_formed a \<and> run_well_formed b \<and> 1 \<le> lvl a \<and> 2 \<le> lvl b)"
| "run_well_formed (Add k a b) =
     (run_well_formed a \<and> run_well_formed b \<and> 1 \<le> k \<and> 1 \<le> lvl b \<and> hd (str_of b) \<noteq> CHR ''+'')"
| "run_well_formed (Sub k a b) =
     (run_well_formed a \<and> run_well_formed b \<and> 1 \<le> k \<and> 1 \<le> lvl b \<and> hd (str_of b) \<noteq> CHR ''-'')"

fun run_value :: "expr \<Rightarrow> int option" where
  "run_value (Lit ds) = Some (lit_value ds)"
| "run_value (Paren e) = run_value e"
| "run_value (Pow a b) =
     (case (run_value a, run_value b) of
        (Some x, Some y) \<Rightarrow> if 0 \<le> y then Some (x ^ nat y) else None
      | _ \<Rightarrow> None)"
| "run_value (Neg a) = (case run_value a of Some x \<Rightarrow> Some (- x) | None \<Rightarrow> None)"
| "run_value (Pos a) = run_value a"
| "run_value (Mul a b) =
     (case (run_value a, run_value b) of (Some x, Some y) \<Rightarrow> Some (x * y) | _ \<Rightarrow> None)"
| "run_value (Div a b) =
     (case (run_value a, run_value b) of
        (Some x, Some y) \<Rightarrow> if y = 0 then None else Some (x div y)
      | _ \<Rightarrow> None)"
| "run_value (Add k a b) =
     (case (run_value a, run_value b) of (Some x, Some y) \<Rightarrow> Some (x + y) | _ \<Rightarrow> None)"
| "run_value (Sub k a b) =
     (case (run_value a, run_value b) of
        (Some x, Some y) \<Rightarrow> Some (if odd k then x - y else x + y)
      | _ \<Rightarrow> None)"

text \<open>The postfix list of a tree: operands first, then the operator.\<close>

fun postfix :: "expr \<Rightarrow> pyval list" where
  "postfix (Lit ds) = [PInt (lit_value ds)]"
| "postfix (Paren e) = postfix e"
| "postfix (Pow a b) = postfix a @ postfix b @ [PStr ''^'']"
| "postfix (Neg a) = postfix a @ [PStr ''#'']"
| "postfix (Pos a) = postfix a"
| "postfix (Mul a b) = postfix a @ postfix b @ [PStr ''*'']"
| "postfix (Div a b) = postfix a @ postfix b @ [PStr ''/'']"
| "postfix (Add k a b) = postfix a @ postfix b @ [PStr ''+'']"
| "postfix (Sub k a b) = postfix a @ postfix b @ [PStr (if odd k then ''-'' else ''+'')]"


subsection \<open>The state of the converter inside an expression\<close>

text \<open>
  When the scan has read the string of a tree, part of its postfix list is in the output
  (\<open>front\<close>) and the rest waits on the operator stack (\<open>pend\<close>, top first).
\<close>

fun pend :: "expr \<Rightarrow> string list" where
  "pend (Lit ds) = []"
| "pend (Paren e) = []"
| "pend (Pow a b) = pend b @ [''^'']"
| "pend (Neg a) = pend a @ [''#'']"
| "pend (Pos a) = pend a"
| "pend (Mul a b) = pend b @ [''*'']"
| "pend (Div a b) = pend b @ [''/'']"
| "pend (Add k a b) = pend b @ [''+'']"
| "pend (Sub k a b) = pend b @ [if odd k then ''-'' else ''+'']"

fun front :: "expr \<Rightarrow> pyval list" where
  "front (Lit ds) = [PInt (lit_value ds)]"
| "front (Paren e) = postfix e"
| "front (Pow a b) = postfix a @ front b"
| "front (Neg a) = front a"
| "front (Pos a) = front a"
| "front (Mul a b) = postfix a @ front b"
| "front (Div a b) = postfix a @ front b"
| "front (Add k a b) = postfix a @ front b"
| "front (Sub k a b) = postfix a @ front b"

text \<open>
  Where a tree of level \<open>l\<close> may start: the text before it ends with an operator or
  \<^verbatim>\<open>(\<close> (or is empty), the text after it starts with an operator or \<^verbatim>\<open>)\<close> (or is empty),
  and the top of the operator stack binds looser than level \<open>l\<close>.
\<close>

definition operand_pos :: "string \<Rightarrow> bool" where
  "operand_pos pre = (pre = [] \<or> last pre \<in> set ''^*/+-('')"

definition follow_ok :: "string \<Rightarrow> bool" where
  "follow_ok post = (post = [] \<or> hd post \<in> set ''+-*/^)'')"

definition top_ok :: "nat \<Rightarrow> string list \<Rightarrow> bool" where
  "top_ok l s = (s = [] \<or>
     (if l = 0 then hd s = ''(''
      else if l = 1 then hd s \<in> {''('', ''+'', ''-''}
      else hd s \<in> {''('', ''+'', ''-'', ''*'', ''/'', ''^'', ''#''}))"

text \<open>The operators a tree of level \<open>l\<close> can leave on the stack.\<close>

definition ops_at :: "nat \<Rightarrow> string set" where
  "ops_at l =
     (if l = 0 then {''+'', ''-'', ''*'', ''/'', ''^'', ''#''}
      else if l = 1 then {''*'', ''/'', ''^'', ''#''}
      else if l < 4 then {''^'', ''#''}
      else {})"

section \<open>Basic facts\<close>

declare scan_loop.simps [code]

declare scan_integer.simps [simp del] scan_name.simps [simp del] skip_pluses.simps [simp del]
  count_minuses.simps [simp del]

lemmas calc_defs = parse_expression_def infix_to_rpn_def scan_loop.simps scan_step_def
  unary_sign_def operand_def operator_def rpn_to_result_def digits_def ascii_letters_def
  int_of_digit_def parse_assignment_def split_eq_def isalpha_def unicode_letter_def

lemmas eval_defs = calc_defs scan_integer.simps scan_name.simps skip_pluses.simps
  count_minuses.simps

lemma str_in_single: "str_in [c] t = (c \<in> set t)"
  by (induction t) auto

subsection \<open>The scan index never decreases\<close>

lemma scan_integer_mono: "scan_integer infx i a = (v, i') \<Longrightarrow> i \<le> i'"
  by (induction infx i a rule: scan_integer.induct)
     (subst (asm) (2) scan_integer.simps, auto split: if_splits)

lemma scan_name_mono: "scan_name infx i a = (v, i') \<Longrightarrow> i \<le> i'"
  by (induction infx i a rule: scan_name.induct)
     (subst (asm) (2) scan_name.simps, auto split: if_splits)

lemma skip_pluses_mono: "i \<le> skip_pluses infx i"
  by (induction infx i rule: skip_pluses.induct)
     (subst skip_pluses.simps, auto)

lemma count_minuses_mono: "count_minuses infx i a = (v, i') \<Longrightarrow> i \<le> i'"
  by (induction infx i a rule: count_minuses.induct)
     (subst (asm) (2) count_minuses.simps, auto split: if_splits)

lemma scan_integer_progress:
  "i < length infx \<Longrightarrow> infx ! i \<in> set digits \<Longrightarrow> scan_integer infx i a = (v, i') \<Longrightarrow> i < i'"
  by (subst (asm) scan_integer.simps) (auto dest: scan_integer_mono)

lemma scan_name_progress:
  "i < length infx \<Longrightarrow> infx ! i \<in> set ascii_letters \<Longrightarrow> scan_name infx i a = (v, i') \<Longrightarrow> i < i'"
  by (subst (asm) scan_name.simps) (auto dest: scan_name_mono)

lemma skip_pluses_progress:
  "i < length infx \<Longrightarrow> infx ! i = CHR ''+'' \<Longrightarrow> i < skip_pluses infx i"
  using skip_pluses_mono [of "i + 1" infx] by (subst skip_pluses.simps) auto

lemma count_minuses_progress:
  "i < length infx \<Longrightarrow> infx ! i = CHR ''-'' \<Longrightarrow> count_minuses infx i a = (v, i') \<Longrightarrow> i < i'"
  by (subst (asm) count_minuses.simps) (auto dest: count_minuses_mono)

lemma unary_sign_index:
  "unary_sign infx (r, s, i) = Inr (r', s', i') \<Longrightarrow>
     (i' = i \<and> r' = r \<and> s' = s \<and>
        \<not> (infx ! i \<in> set ''+-'' \<and> (i = 0 \<or> infx ! (i - 1) \<in> set ''^*/+-(''))) \<or> i' = i + 1"
  by (auto simp: unary_sign_def split: if_splits)

lemma operand_mono: "operand infx (r, s, i) = Inr (r', s', i') \<Longrightarrow> i \<le> i'"
  by (auto simp: operand_def split: if_splits prod.splits dest: scan_integer_mono scan_name_mono)

lemma operator_mono: "operator infx (r, s, i) = Inr (r', s', i') \<Longrightarrow> i \<le> i'"
  using skip_pluses_mono [of i infx]
  by (auto simp: operator_def split: if_splits prod.splits list.splits dest: count_minuses_mono)

lemma operand_progress:
  "i < length infx \<Longrightarrow> infx ! i \<in> set digits \<or> infx ! i \<in> set ascii_letters \<Longrightarrow>
   operand infx (r, s, i) = Inr (r', s', i') \<Longrightarrow> i < i'"
  by (auto simp: operand_def split: if_splits prod.splits
      dest: scan_integer_progress scan_name_progress)

lemma operand_other:
  "i < length infx \<Longrightarrow> \<not> (infx ! i \<in> set digits \<or> infx ! i \<in> set ascii_letters) \<Longrightarrow>
   operand infx (r, s, i) = Inr st' \<Longrightarrow> st' = (r, s, i) \<and> infx ! i \<in> set ''+-*/^()''"
  by (auto simp: operand_def split: if_splits)

lemma operator_progress:
  "i < length infx \<Longrightarrow> infx ! i \<in> set ''+-*/^()'' \<Longrightarrow>
   operator infx (r, s, i) = Inr (r', s', i') \<Longrightarrow> i < i'"
  using skip_pluses_progress [of i infx]
  by (auto simp: operator_def split: if_splits prod.splits list.splits
      dest: count_minuses_progress)

lemma scan_step_progress:
  assumes "i < length infx" and "scan_step infx (r, s, i) = Inr (r', s', i')"
  shows "i < i'"
proof -
  from assms(2) obtain r1 s1 i1 r2 s2 i2 where
    u: "unary_sign infx (r, s, i) = Inr (r1, s1, i1)" and
    o: "operand infx (r1, s1, i1) = Inr (r2, s2, i2)" and
    p: "operator infx (r2, s2, i2) = Inr (r', s', i')"
    by (auto simp: scan_step_def split: sum.splits)
  from unary_sign_index [OF u] show ?thesis
  proof
    assume "i1 = i + 1"
    with operand_mono [OF o] operator_mono [OF p] show ?thesis by simp
  next
    assume same: "i1 = i \<and> r1 = r \<and> s1 = s \<and>
        \<not> (infx ! i \<in> set ''+-'' \<and> (i = 0 \<or> infx ! (i - 1) \<in> set ''^*/+-(''))"
    show ?thesis
    proof (cases "infx ! i \<in> set digits \<or> infx ! i \<in> set ascii_letters")
      case True
      with operand_progress [of i infx r s r2 s2 i2] o same assms(1) have "i < i2" by simp
      with operator_mono [OF p] show ?thesis by simp
    next
      case False
      with operand_other [of i infx r s "(r2, s2, i2)"] o same assms(1)
      have "r2 = r \<and> s2 = s \<and> i2 = i \<and> infx ! i \<in> set ''+-*/^()''" by simp
      with operator_progress [of i infx r s r' s' i'] p assms(1) show ?thesis by simp
    qed
  qed
qed

lemma scan_loop_total: "\<exists>out. scan_loop infx r s i = Some out"
proof (induction "length infx - i" arbitrary: r s i rule: less_induct)
  case less
  show ?case
  proof (cases "i < length infx")
    case False
    then show ?thesis by (subst scan_loop.simps) simp
  next
    case True
    show ?thesis
    proof (cases "scan_step infx (r, s, i)")
      case (Inl e)
      with True show ?thesis by (subst scan_loop.simps) simp
    next
      case (Inr st')
      obtain r' s' i' where st': "st' = (r', s', i')" by (cases st') auto
      with Inr True scan_step_progress have "i < i'" by blast
      with True have "length infx - i' < length infx - i" by arith
      from less [OF this] obtain out where "scan_loop infx r' s' i' = Some out" by blast
      with Inr st' True show ?thesis by (subst scan_loop.simps) simp
    qed
  qed
qed

subsection \<open>Splitting an assignment line\<close>

lemma split_eq_append:
  "CHR ''='' \<notin> set lhs \<Longrightarrow> split_eq (lhs @ CHR ''='' # rhs) = [lhs, rhs]"
  by (induction lhs) (auto simp: split_eq_def)

lemma isalpha_no_eq: "isalpha s \<Longrightarrow> CHR ''='' \<notin> set s"
proof -
  have "\<not> unicode_letter CHR ''=''" by (simp add: unicode_letter_def)
  then show "isalpha s \<Longrightarrow> CHR ''='' \<notin> set s"
    unfolding isalpha_def list_all_iff by blast
qed

section \<open>Conversion of well-formed expressions\<close>

subsection \<open>Character classes\<close>

lemma op_char_class:
  "c \<in> set ''+-*/^()'' \<Longrightarrow> c \<notin> set digits \<and> c \<notin> set ascii_letters"
  by (auto simp: digits_def ascii_letters_def)

lemma digit_char_class:
  "c \<in> set digits \<Longrightarrow> c \<notin> set ''+-*/^()'' \<and> c \<notin> set ''+-'' \<and> c \<notin> set ''^*/+-(''"
  by (auto simp: digits_def)

subsection \<open>Indexing into an appended string\<close>

lemma nth_before: "pre \<noteq> [] \<Longrightarrow> (pre @ ys) ! (length pre - Suc 0) = last pre"
  by (simp add: nth_append last_conv_nth)

lemma nth_after: "(pre @ c # d # post) ! Suc (length pre) = d"
  by (simp add: nth_append)

subsection \<open>The inner loops on an appended string\<close>

lemma scan_integer_append:
  "set ds \<subseteq> set digits \<Longrightarrow> post = [] \<or> hd post \<notin> set digits \<Longrightarrow>
   scan_integer (pre @ ds @ post) (length pre) acc
     = (foldl (\<lambda>a c. a * 10 + int_of_digit c) acc ds, length pre + length ds)"
proof (induction ds arbitrary: pre acc)
  case Nil
  then show ?case
    by (subst scan_integer.simps) (auto simp: nth_append hd_conv_nth)
next
  case (Cons c cs)
  from Cons.prems have c: "c \<in> set digits" and cs: "set cs \<subseteq> set digits" by auto
  have "scan_integer (pre @ (c # cs) @ post) (length pre) acc
      = scan_integer ((pre @ [c]) @ cs @ post) (length (pre @ [c])) (acc * 10 + int_of_digit c)"
    using c by (subst scan_integer.simps) simp
  also have "\<dots> = (foldl (\<lambda>a c. a * 10 + int_of_digit c) (acc * 10 + int_of_digit c) cs,
      length (pre @ [c]) + length cs)"
    using cs Cons.prems(2) by (rule Cons.IH)
  finally show ?case by simp
qed

lemma skip_pluses_append:
  "post = [] \<or> hd post \<noteq> CHR ''+'' \<Longrightarrow>
   skip_pluses (pre @ replicate k CHR ''+'' @ post) (length pre) = length pre + k"
proof (induction k arbitrary: pre)
  case 0
  then show ?case
    by (subst skip_pluses.simps) (auto simp: nth_append hd_conv_nth)
next
  case (Suc k)
  have "skip_pluses (pre @ replicate (Suc k) CHR ''+'' @ post) (length pre)
      = skip_pluses ((pre @ ''+'') @ replicate k CHR ''+'' @ post) (length (pre @ ''+''))"
    by (subst skip_pluses.simps) simp
  also have "\<dots> = length (pre @ ''+'') + k"
    using Suc.prems by (rule Suc.IH)
  finally show ?case by simp
qed

lemma count_minuses_append:
  "post = [] \<or> hd post \<noteq> CHR ''-'' \<Longrightarrow>
   count_minuses (pre @ replicate k CHR ''-'' @ post) (length pre) m = (m + k, length pre + k)"
proof (induction k arbitrary: pre m)
  case 0
  then show ?case
    by (subst count_minuses.simps) (auto simp: nth_append hd_conv_nth)
next
  case (Suc k)
  have "count_minuses (pre @ replicate (Suc k) CHR ''-'' @ post) (length pre) m
      = count_minuses ((pre @ ''-'') @ replicate k CHR ''-'' @ post) (length (pre @ ''-'')) (m + 1)"
    by (subst count_minuses.simps) simp
  also have "\<dots> = (m + 1 + k, length (pre @ ''-'') + k)"
    using Suc.prems by (rule Suc.IH)
  finally show ?case by simp
qed

lemma pop_while_append:
  "\<forall>x \<in> set ops. P x \<Longrightarrow> s = [] \<or> \<not> P (hd s) \<Longrightarrow>
   pop_while P r (ops @ s) = (r @ map PStr ops, s)"
proof (induction ops arbitrary: r)
  case Nil
  then show ?case by (cases s) auto
next
  case (Cons x ops)
  then show ?case by simp
qed

subsection \<open>Unfolding the scan loop\<close>

lemma scan_loop_step:
  "i < length infx \<Longrightarrow> scan_step infx (r, s, i) = Inr (r', s', i') \<Longrightarrow>
   scan_loop infx r s i = scan_loop infx r' s' i'"
  by (simp add: scan_loop.simps [of infx r s i])

lemma scan_loop_end:
  "length infx \<le> i \<Longrightarrow> scan_loop infx r s i = Some (drain r s)"
  by (simp add: scan_loop.simps [of infx r s i])

lemma scan_loop_same_step:
  "i < length infx \<Longrightarrow> j < length infx \<Longrightarrow>
   scan_step infx (r, s, i) = scan_step infx (r', s', j) \<Longrightarrow>
   scan_loop infx r s i = scan_loop infx r' s' j"
  by (simp add: scan_loop.simps [of infx r s i] scan_loop.simps [of infx r' s' j])

subsection \<open>One pass of the loop at an operator character\<close>

lemma scan_step_at_operator:
  "c \<in> set ''+-*/^()'' \<Longrightarrow> \<not> (c \<in> set ''+-'' \<and> operand_pos pre) \<Longrightarrow>
   scan_step (pre @ c # post) (r, s, length pre) = operator (pre @ c # post) (r, s, length pre)"
proof -
  assume c: "c \<in> set ''+-*/^()''" and u: "\<not> (c \<in> set ''+-'' \<and> operand_pos pre)"
  from u have "unary_sign (pre @ c # post) (r, s, length pre) = Inr (r, s, length pre)"
    by (cases "pre = []") (auto simp: unary_sign_def operand_pos_def nth_before)
  moreover from op_char_class [OF c]
  have "operand (pre @ c # post) (r, s, length pre) = Inr (r, s, length pre)"
    using c by (simp add: operand_def)
  ultimately show ?thesis by (simp add: scan_step_def)
qed

lemma operator_lparen:
  "operator (pre @ CHR ''('' # post) (r, s, length pre) = Inr (r, ''('' # s, Suc (length pre))"
  by (simp add: operator_def)

lemma operator_rparen:
  "\<forall>x \<in> set ops. x \<noteq> ''('' \<Longrightarrow>
   operator (pre @ CHR '')'' # post) (r, ops @ ''('' # s, length pre)
     = Inr (r @ map PStr ops, s, Suc (length pre))"
  by (simp add: operator_def pop_while_append [where P = "\<lambda>s. s \<noteq> ''(''"])

lemma operator_plus:
  assumes "post = [] \<or> hd post \<noteq> CHR ''+''"
    and "\<forall>x \<in> set ops. str_in x ''+-*/^#''"
    and "s = [] \<or> \<not> str_in (hd s) ''+-*/^#''"
  shows "operator (pre @ replicate (Suc k) CHR ''+'' @ post) (r, ops @ s, length pre)
     = Inr (r @ map PStr ops, ''+'' # s, length pre + Suc k)"
proof -
  have "skip_pluses (pre @ replicate (Suc k) CHR ''+'' @ post) (length pre) = length pre + Suc k"
    using assms(1) by (rule skip_pluses_append)
  moreover have "pop_while (\<lambda>s. str_in s ''+-*/^#'') r (ops @ s) = (r @ map PStr ops, s)"
    using assms(2,3) by (rule pop_while_append)
  ultimately show ?thesis
    by (simp add: operator_def)
qed

lemma operator_minus:
  assumes "post = [] \<or> hd post \<noteq> CHR ''-''"
    and "\<forall>x \<in> set ops. str_in x ''+-*/^#''"
    and "s = [] \<or> \<not> str_in (hd s) ''+-*/^#''"
  shows "operator (pre @ replicate (Suc k) CHR ''-'' @ post) (r, ops @ s, length pre)
     = Inr (r @ map PStr ops, (if odd (Suc k) then ''-'' else ''+'') # s, length pre + Suc k)"
proof -
  have "count_minuses (pre @ replicate (Suc k) CHR ''-'' @ post) (length pre) 0
      = (0 + Suc k, length pre + Suc k)"
    using assms(1) by (rule count_minuses_append)
  moreover have "pop_while (\<lambda>s. str_in s ''+-*/^#'') r (ops @ s) = (r @ map PStr ops, s)"
    using assms(2,3) by (rule pop_while_append)
  ultimately have "operator (pre @ replicate (Suc k) CHR ''-'' @ post) (r, ops @ s, length pre)
     = Inr (r @ map PStr ops, (if Suc k mod 2 \<noteq> 0 then ''-'' else ''+'') # s,
         length pre + Suc k)"
    by (simp add: operator_def)
  moreover have par: "odd (Suc k) = (Suc k mod 2 \<noteq> 0)" by presburger
  ultimately show ?thesis unfolding par by simp
qed

lemma operator_muldiv:
  assumes "c = CHR ''*'' \<or> c = CHR ''/''"
    and "post \<noteq> []" and "hd post \<noteq> c"
    and "\<forall>x \<in> set ops. str_in x ''*/^#''"
    and "s = [] \<or> \<not> str_in (hd s) ''*/^#''"
  shows "operator (pre @ c # post) (r, ops @ s, length pre)
     = Inr (r @ map PStr ops, [c] # s, Suc (length pre))"
proof -
  have "pop_while (\<lambda>s. str_in s ''*/^#'') r (ops @ s) = (r @ map PStr ops, s)"
    using assms(4,5) by (rule pop_while_append)
  moreover from assms(2,3) have "(pre @ c # post) ! Suc (length pre) \<noteq> c"
    by (cases post) (auto simp: nth_append)
  ultimately show ?thesis
    using assms(1) by (auto simp: operator_def)
qed

lemma operator_pow:
  assumes "post \<noteq> []" and "hd post \<noteq> CHR ''^''"
    and "s = [] \<or> hd s \<noteq> ''^#''"
  shows "operator (pre @ CHR ''^'' # post) (r, s, length pre)
     = Inr (r, ''^'' # s, Suc (length pre))"
proof -
  have "pop_while (\<lambda>s. s = ''^#'') r s = (r, s)"
    using assms(3) by (cases s) auto
  moreover from assms(1,2) have "(pre @ CHR ''^'' # post) ! Suc (length pre) \<noteq> CHR ''^''"
    by (cases post) (auto simp: nth_append)
  ultimately show ?thesis
    by (simp add: operator_def)
qed

subsection \<open>The loop over one token\<close>

lemma loop_lparen:
  "scan_loop (pre @ CHR ''('' # post) r s (length pre)
   = scan_loop (pre @ CHR ''('' # post) r (''('' # s) (Suc (length pre))"
  by (rule scan_loop_step) (simp_all add: scan_step_at_operator operator_lparen)

lemma loop_rparen:
  "\<forall>x \<in> set ops. x \<noteq> ''('' \<Longrightarrow>
   scan_loop (pre @ CHR '')'' # post) r (ops @ ''('' # s) (length pre)
   = scan_loop (pre @ CHR '')'' # post) (r @ map PStr ops) s (Suc (length pre))"
  by (rule scan_loop_step) (simp_all add: scan_step_at_operator operator_rparen)

lemma loop_plus:
  assumes "\<not> operand_pos pre" and "post = [] \<or> hd post \<noteq> CHR ''+''"
    and "\<forall>x \<in> set ops. str_in x ''+-*/^#''"
    and "s = [] \<or> \<not> str_in (hd s) ''+-*/^#''"
  shows "scan_loop (pre @ replicate (Suc k) CHR ''+'' @ post) r (ops @ s) (length pre)
   = scan_loop (pre @ replicate (Suc k) CHR ''+'' @ post) (r @ map PStr ops) (''+'' # s)
       (length pre + Suc k)"
proof (rule scan_loop_step)
  show "length pre < length (pre @ replicate (Suc k) CHR ''+'' @ post)" by simp
  have "scan_step (pre @ CHR ''+'' # replicate k CHR ''+'' @ post) (r, ops @ s, length pre)
      = operator (pre @ CHR ''+'' # replicate k CHR ''+'' @ post) (r, ops @ s, length pre)"
    using assms(1) by (intro scan_step_at_operator) simp_all
  then show "scan_step (pre @ replicate (Suc k) CHR ''+'' @ post) (r, ops @ s, length pre)
      = Inr (r @ map PStr ops, ''+'' # s, length pre + Suc k)"
    using operator_plus [OF assms(2,3,4), of pre k r] by simp
qed

lemma loop_minus:
  assumes "\<not> operand_pos pre" and "post = [] \<or> hd post \<noteq> CHR ''-''"
    and "\<forall>x \<in> set ops. str_in x ''+-*/^#''"
    and "s = [] \<or> \<not> str_in (hd s) ''+-*/^#''"
  shows "scan_loop (pre @ replicate (Suc k) CHR ''-'' @ post) r (ops @ s) (length pre)
   = scan_loop (pre @ replicate (Suc k) CHR ''-'' @ post) (r @ map PStr ops)
       ((if odd (Suc k) then ''-'' else ''+'') # s) (length pre + Suc k)"
proof (rule scan_loop_step)
  show "length pre < length (pre @ replicate (Suc k) CHR ''-'' @ post)" by simp
  have "scan_step (pre @ CHR ''-'' # replicate k CHR ''-'' @ post) (r, ops @ s, length pre)
      = operator (pre @ CHR ''-'' # replicate k CHR ''-'' @ post) (r, ops @ s, length pre)"
    using assms(1) by (intro scan_step_at_operator) simp_all
  then show "scan_step (pre @ replicate (Suc k) CHR ''-'' @ post) (r, ops @ s, length pre)
      = Inr (r @ map PStr ops, (if odd (Suc k) then ''-'' else ''+'') # s, length pre + Suc k)"
    using operator_minus [OF assms(2,3,4), of pre k r] by simp
qed

lemma loop_muldiv:
  assumes "c = CHR ''*'' \<or> c = CHR ''/''"
    and "post \<noteq> []" and "hd post \<noteq> c"
    and "\<forall>x \<in> set ops. str_in x ''*/^#''"
    and "s = [] \<or> \<not> str_in (hd s) ''*/^#''"
  shows "scan_loop (pre @ c # post) r (ops @ s) (length pre)
   = scan_loop (pre @ c # post) (r @ map PStr ops) ([c] # s) (Suc (length pre))"
proof (rule scan_loop_step)
  show "length pre < length (pre @ c # post)" by simp
  have "scan_step (pre @ c # post) (r, ops @ s, length pre)
      = operator (pre @ c # post) (r, ops @ s, length pre)"
    using assms(1) by (intro scan_step_at_operator) auto
  then show "scan_step (pre @ c # post) (r, ops @ s, length pre)
      = Inr (r @ map PStr ops, [c] # s, Suc (length pre))"
    using operator_muldiv [OF assms, of pre r] by simp
qed

lemma loop_pow:
  assumes "post \<noteq> []" and "hd post \<noteq> CHR ''^''"
    and "s = [] \<or> hd s \<noteq> ''^#''"
  shows "scan_loop (pre @ CHR ''^'' # post) r s (length pre)
   = scan_loop (pre @ CHR ''^'' # post) r (''^'' # s) (Suc (length pre))"
  by (rule scan_loop_step) (simp_all add: scan_step_at_operator operator_pow [OF assms])

lemma loop_unary:
  assumes "c = CHR ''-'' \<or> c = CHR ''+''" and "operand_pos pre"
    and "post \<noteq> []" and "hd post \<in> set digits \<or> hd post = CHR ''(''"
  shows "scan_loop (pre @ c # post) r s (length pre)
   = scan_loop (pre @ c # post) r ((if c = CHR ''-'' then ''#'' # s else s)) (Suc (length pre))"
proof (rule scan_loop_same_step)
  show "length pre < length (pre @ c # post)" by simp
  from assms(3) show "Suc (length pre) < length (pre @ c # post)" by (cases post) auto
  obtain d post' where post: "post = d # post'" using assms(3) by (cases post) auto
  with assms(4) have d: "d \<in> set digits \<or> d = CHR ''(''" by simp
  then have dn: "d \<notin> set ''+-''" by (auto simp: digits_def)
  from assms(1,2) d have
    "unary_sign (pre @ c # d # post') (r, s, length pre)
      = Inr (r, (if c = CHR ''-'' then ''#'' # s else s), Suc (length pre))"
    by (cases "pre = []") (auto simp: unary_sign_def operand_pos_def nth_before nth_after)
  moreover from dn have
    "unary_sign (pre @ c # d # post') (r, (if c = CHR ''-'' then ''#'' # s else s), Suc (length pre))
      = Inr (r, (if c = CHR ''-'' then ''#'' # s else s), Suc (length pre))"
    by (simp add: unary_sign_def nth_after del: set_simps)
  ultimately show "scan_step (pre @ c # post) (r, s, length pre)
      = scan_step (pre @ c # post) (r, (if c = CHR ''-'' then ''#'' # s else s), Suc (length pre))"
    by (simp add: scan_step_def post)
qed

lemma loop_literal:
  assumes "ds \<noteq> []" and "set ds \<subseteq> set digits" and "follow_ok post"
  shows "scan_loop (pre @ ds @ post) r s (length pre)
   = scan_loop (pre @ ds @ post) (r @ [PInt (lit_value ds)]) s (length pre + length ds)"
proof -
  obtain d ds' where ds: "ds = d # ds'" using assms(1) by (cases ds) auto
  with assms(2) have d: "d \<in> set digits" by simp
  from assms(3) have nd: "post = [] \<or> hd post \<notin> set digits"
    using op_char_class [of "hd post"] by (auto simp: follow_ok_def)
  have u: "unary_sign (pre @ ds @ post) (r, s, length pre) = Inr (r, s, length pre)"
    using digit_char_class [OF d] by (simp add: unary_sign_def ds del: set_simps)
  have o: "operand (pre @ ds @ post) (r, s, length pre)
      = Inr (r @ [PInt (lit_value ds)], s, length pre + length ds)"
    using d scan_integer_append [OF assms(2) nd, of pre 0]
    by (simp add: operand_def lit_value_def ds)
  have step: "scan_step (pre @ ds @ post) (r, s, length pre)
      = operator (pre @ ds @ post) (r @ [PInt (lit_value ds)], s, length pre + length ds)"
    by (simp add: scan_step_def u o)
  show ?thesis
  proof (cases post)
    case Nil
    have "operator (pre @ ds) (r @ [PInt (lit_value ds)], s, length pre + length ds)
        = Inr (r @ [PInt (lit_value ds)], s, length pre + length ds)"
      by (simp add: operator_def)
    with step Nil show ?thesis
      by (intro scan_loop_step) (simp_all add: ds)
  next
    case (Cons c post')
    with assms(3) have c: "c \<in> set ''+-*/^()''" by (auto simp: follow_ok_def)
    have "last (pre @ ds) \<in> set digits" using assms(1,2) by (simp add: subset_iff)
    from digit_char_class [OF this] have np: "\<not> operand_pos (pre @ ds)"
      using assms(1) by (simp add: operand_pos_def)
    have "scan_step ((pre @ ds) @ c # post') (r @ [PInt (lit_value ds)], s, length (pre @ ds))
        = operator ((pre @ ds) @ c # post') (r @ [PInt (lit_value ds)], s, length (pre @ ds))"
      using c np by (intro scan_step_at_operator) simp_all
    with step Cons show ?thesis
      by (intro scan_loop_same_step) (simp_all add: ds)
  qed
qed

subsection \<open>Pending operators of a syntax tree\<close>

lemma postfix_front_pend: "postfix e = front e @ map PStr (pend e)"
  by (induction e) auto

lemma top_ok_mono: "top_ok l s \<Longrightarrow> l \<le> l' \<Longrightarrow> top_ok l' s"
  by (auto simp: top_ok_def split: if_splits)

lemma ops_at_mono: "l \<le> l' \<Longrightarrow> ops_at l' \<subseteq> ops_at l"
  by (auto simp: ops_at_def split: if_splits)

lemma pend_ops: "run_well_formed e \<Longrightarrow> set (pend e) \<subseteq> ops_at (lvl e)"
proof (induction e)
  case (Pow a b)
  then have "set (pend b) \<subseteq> ops_at (lvl b)" by simp
  with ops_at_mono [of 2 "lvl b"] Pow.prems show ?case by (auto simp: ops_at_def)
next
  case (Neg a)
  then have "set (pend a) \<subseteq> ops_at (lvl a)" by simp
  with ops_at_mono [of 2 "lvl a"] Neg.prems show ?case by (auto simp: ops_at_def)
next
  case (Pos a)
  then have "set (pend a) \<subseteq> ops_at (lvl a)" by simp
  with ops_at_mono [of 2 "lvl a"] Pos.prems show ?case by (auto simp: ops_at_def)
next
  case (Mul a b)
  then have "set (pend b) \<subseteq> ops_at (lvl b)" by simp
  with ops_at_mono [of 1 "lvl b"] Mul.prems show ?case by (auto simp: ops_at_def)
next
  case (Div a b)
  then have "set (pend b) \<subseteq> ops_at (lvl b)" by simp
  with ops_at_mono [of 1 "lvl b"] Div.prems show ?case by (auto simp: ops_at_def)
next
  case (Add k a b)
  then have "set (pend b) \<subseteq> ops_at (lvl b)" by simp
  with ops_at_mono [of 0 "lvl b"] Add.prems show ?case by (auto simp: ops_at_def)
next
  case (Sub k a b)
  then have "set (pend b) \<subseteq> ops_at (lvl b)" by simp
  with ops_at_mono [of 0 "lvl b"] Sub.prems show ?case by (auto simp: ops_at_def)
qed (simp_all add: ops_at_def)

lemma str_of_first:
  "run_well_formed e \<Longrightarrow> str_of e \<noteq> []
     \<and> (hd (str_of e) \<in> set digits \<or> hd (str_of e) = CHR ''(''
        \<or> (lvl e < 3 \<and> (hd (str_of e) = CHR ''-'' \<or> hd (str_of e) = CHR ''+'')))"
  by (induction e) (auto simp: hd_append subset_iff)

lemma str_of_last:
  "run_well_formed e \<Longrightarrow> str_of e \<noteq> []
     \<and> (last (str_of e) \<in> set digits \<or> last (str_of e) = CHR '')'')"
  by (induction e) (auto simp: subset_iff)

lemma top_ok_plus: "top_ok 0 s \<Longrightarrow> s = [] \<or> \<not> str_in (hd s) ''+-*/^#''"
  by (auto simp: top_ok_def)

lemma top_ok_times: "top_ok 1 s \<Longrightarrow> s = [] \<or> \<not> str_in (hd s) ''*/^#''"
  by (auto simp: top_ok_def)

lemma top_ok_pow: "top_ok l s \<Longrightarrow> s = [] \<or> hd s \<noteq> ''^#''"
  by (auto simp: top_ok_def split: if_splits)

lemma top_ok_push:
  "top_ok 0 (''('' # s)" "top_ok 1 (''+'' # s)" "top_ok 1 (''-'' # s)"
  "2 \<le> l \<Longrightarrow> top_ok l (''*'' # s)" "2 \<le> l \<Longrightarrow> top_ok l (''/'' # s)"
  "2 \<le> l \<Longrightarrow> top_ok l (''^'' # s)" "2 \<le> l \<Longrightarrow> top_ok l (''#'' # s)"
  by (auto simp: top_ok_def)

lemma pend_plus: "run_well_formed e \<Longrightarrow> \<forall>x \<in> set (pend e). str_in x ''+-*/^#''"
  using pend_ops [of e] ops_at_mono [of 0 "lvl e"] by (auto simp: ops_at_def)

lemma pend_times: "run_well_formed e \<Longrightarrow> 1 \<le> lvl e \<Longrightarrow> \<forall>x \<in> set (pend e). str_in x ''*/^#''"
  using pend_ops [of e] ops_at_mono [of 1 "lvl e"] by (auto simp: ops_at_def)

lemma pend_no_paren: "run_well_formed e \<Longrightarrow> \<forall>x \<in> set (pend e). x \<noteq> ''(''"
  using pend_ops [of e] ops_at_mono [of 0 "lvl e"] by (auto simp: ops_at_def)

lemma pend_atom: "run_well_formed e \<Longrightarrow> lvl e = 4 \<Longrightarrow> pend e = []"
  using pend_ops [of e] by (simp add: ops_at_def)

lemma not_operand_pos_after:
  "run_well_formed e \<Longrightarrow> \<not> operand_pos (pre @ str_of e)"
  using str_of_last [of e] digit_char_class [of "last (str_of e)"]
  by (auto simp: operand_pos_def)

lemma operand_pos_run:
  "c \<in> set ''^*/+-('' \<Longrightarrow> operand_pos (pre @ replicate (Suc k) c)"
proof -
  have "pre @ replicate (Suc k) c = (pre @ replicate k c) @ [c]"
    by (simp add: replicate_append_same)
  then show "c \<in> set ''^*/+-('' \<Longrightarrow> operand_pos (pre @ replicate (Suc k) c)"
    by (simp only: operand_pos_def last_snoc) simp
qed

lemma convert_expr:
  "run_well_formed e \<Longrightarrow> top_ok (lvl e) s \<Longrightarrow> operand_pos pre \<Longrightarrow> follow_ok post \<Longrightarrow>
   scan_loop (pre @ str_of e @ post) r s (length pre)
   = scan_loop (pre @ str_of e @ post) (r @ front e) (pend e @ s)
       (length pre + length (str_of e))"
proof (induction e arbitrary: pre post r s)
  case (Lit ds)
  then show ?case using loop_literal [of ds post pre r s] by simp
next
  case (Paren e)
  let ?I = "pre @ CHR ''('' # str_of e @ CHR '')'' # post"
  have wf: "run_well_formed e" using Paren.prems by simp
  have "scan_loop ?I r s (length pre) = scan_loop ?I r (''('' # s) (Suc (length pre))"
    by (rule loop_lparen)
  also have "\<dots> = scan_loop ?I (r @ front e) (pend e @ ''('' # s)
      (Suc (length pre) + length (str_of e))"
    using Paren.IH [of "''('' # s" "pre @ ''(''" "CHR '')'' # post" r] wf
      top_ok_mono [where l = 0 and l' = "lvl e" and s = "''('' # s"] top_ok_push(1) [of s]
    by (simp add: operand_pos_def follow_ok_def)
  also have "\<dots> = scan_loop ?I (r @ front e @ map PStr (pend e)) s
      (Suc (Suc (length pre) + length (str_of e)))"
    using loop_rparen [OF pend_no_paren [OF wf], of "pre @ CHR ''('' # str_of e" post
        "r @ front e" s]
    by simp
  finally show ?case by (simp add: postfix_front_pend add.assoc)
next
  case (Pow a b)
  let ?I = "pre @ str_of a @ CHR ''^'' # str_of b @ post"
  have wa: "run_well_formed a" and wb: "run_well_formed b" and la: "lvl a = 4" and lb: "2 \<le> lvl b"
    using Pow.prems by simp_all
  have pa: "pend a = []" using wa la by (rule pend_atom)
  have "scan_loop ?I r s (length pre)
      = scan_loop ?I (r @ front a) s (length pre + length (str_of a))"
    using Pow.IH(1) [of s pre "CHR ''^'' # str_of b @ post" r] wa la Pow.prems(2,3) pa
      top_ok_mono [where l = 3 and l' = 4 and s = s]
    by (simp add: follow_ok_def)
  also have "\<dots> = scan_loop ?I (r @ front a) (''^'' # s) (Suc (length pre + length (str_of a)))"
    using loop_pow [of "str_of b @ post" s "pre @ str_of a" "r @ front a"]
      str_of_first [OF wb] top_ok_pow [OF Pow.prems(2)]
    by (auto simp: digits_def)
  also have "\<dots> = scan_loop ?I (r @ front a @ front b) (pend b @ ''^'' # s)
      (Suc (length pre + length (str_of a)) + length (str_of b))"
    using Pow.IH(2) [of "''^'' # s" "pre @ str_of a @ ''^''" post "r @ front a"] wb
      top_ok_push(6) [where l = "lvl b" and s = s] lb Pow.prems(4)
    by (simp add: operand_pos_def)
  finally show ?case using pa by (simp add: postfix_front_pend add.assoc)
next
  case (Neg a)
  let ?I = "pre @ CHR ''-'' # str_of a @ post"
  have wa: "run_well_formed a" and la: "3 \<le> lvl a" using Neg.prems by simp_all
  have "scan_loop ?I r s (length pre) = scan_loop ?I r (''#'' # s) (Suc (length pre))"
    using loop_unary [of "CHR ''-''" pre "str_of a @ post" r s] str_of_first [OF wa] la
      Neg.prems(3)
    by auto
  also have "\<dots> = scan_loop ?I (r @ front a) (pend a @ ''#'' # s)
      (Suc (length pre) + length (str_of a))"
    using Neg.IH [of "''#'' # s" "pre @ ''-''" post r] wa top_ok_push(7) [where l = "lvl a" and s = s] la
      Neg.prems(4)
    by (simp add: operand_pos_def)
  finally show ?case by (simp add: add.assoc)
next
  case (Pos a)
  let ?I = "pre @ CHR ''+'' # str_of a @ post"
  have wa: "run_well_formed a" and la: "3 \<le> lvl a" using Pos.prems by simp_all
  have "scan_loop ?I r s (length pre) = scan_loop ?I r s (Suc (length pre))"
    using loop_unary [of "CHR ''+''" pre "str_of a @ post" r s] str_of_first [OF wa] la
      Pos.prems(3)
    by auto
  also have "\<dots> = scan_loop ?I (r @ front a) (pend a @ s)
      (Suc (length pre) + length (str_of a))"
    using Pos.IH [of s "pre @ ''+''" post r] wa top_ok_mono [where l = 2 and l' = "lvl a" and s = s] Pos.prems(2) la
      Pos.prems(4)
    by (simp add: operand_pos_def)
  finally show ?case by (simp add: add.assoc)
next
  case (Mul a b)
  let ?I = "pre @ str_of a @ CHR ''*'' # str_of b @ post"
  have wa: "run_well_formed a" and wb: "run_well_formed b" and la: "1 \<le> lvl a" and lb: "2 \<le> lvl b"
    using Mul.prems by simp_all
  have t1: "top_ok 1 s" using Mul.prems(2) by simp
  have "scan_loop ?I r s (length pre)
      = scan_loop ?I (r @ front a) (pend a @ s) (length pre + length (str_of a))"
    using Mul.IH(1) [of s pre "CHR ''*'' # str_of b @ post" r] wa Mul.prems(3)
      top_ok_mono [where l = 1 and l' = "lvl a" and s = s] t1 la
    by (simp add: follow_ok_def)
  also have "\<dots> = scan_loop ?I (r @ front a @ map PStr (pend a)) (''*'' # s)
      (Suc (length pre + length (str_of a)))"
    using loop_muldiv [of "CHR ''*''" "str_of b @ post" "pend a" s "pre @ str_of a" "r @ front a"]
      str_of_first [OF wb] pend_times [OF wa la] top_ok_times [OF t1] not_operand_pos_after [OF wa]
    by (auto simp: digits_def)
  also have "\<dots> = scan_loop ?I (r @ front a @ map PStr (pend a) @ front b) (pend b @ ''*'' # s)
      (Suc (length pre + length (str_of a)) + length (str_of b))"
    using Mul.IH(2) [of "''*'' # s" "pre @ str_of a @ ''*''" post "r @ front a @ map PStr (pend a)"]
      wb top_ok_push(4) [where l = "lvl b" and s = s] lb Mul.prems(4)
    by (simp add: operand_pos_def)
  finally show ?case by (simp add: postfix_front_pend add.assoc)
next
  case (Div a b)
  let ?I = "pre @ str_of a @ CHR ''/'' # str_of b @ post"
  have wa: "run_well_formed a" and wb: "run_well_formed b" and la: "1 \<le> lvl a" and lb: "2 \<le> lvl b"
    using Div.prems by simp_all
  have t1: "top_ok 1 s" using Div.prems(2) by simp
  have "scan_loop ?I r s (length pre)
      = scan_loop ?I (r @ front a) (pend a @ s) (length pre + length (str_of a))"
    using Div.IH(1) [of s pre "CHR ''/'' # str_of b @ post" r] wa Div.prems(3)
      top_ok_mono [where l = 1 and l' = "lvl a" and s = s] t1 la
    by (simp add: follow_ok_def)
  also have "\<dots> = scan_loop ?I (r @ front a @ map PStr (pend a)) (''/'' # s)
      (Suc (length pre + length (str_of a)))"
    using loop_muldiv [of "CHR ''/''" "str_of b @ post" "pend a" s "pre @ str_of a" "r @ front a"]
      str_of_first [OF wb] pend_times [OF wa la] top_ok_times [OF t1] not_operand_pos_after [OF wa]
    by (auto simp: digits_def)
  also have "\<dots> = scan_loop ?I (r @ front a @ map PStr (pend a) @ front b) (pend b @ ''/'' # s)
      (Suc (length pre + length (str_of a)) + length (str_of b))"
    using Div.IH(2) [of "''/'' # s" "pre @ str_of a @ ''/''" post "r @ front a @ map PStr (pend a)"]
      wb top_ok_push(5) [where l = "lvl b" and s = s] lb Div.prems(4)
    by (simp add: operand_pos_def)
  finally show ?case by (simp add: postfix_front_pend add.assoc)
next
  case (Add k a b)
  have wa: "run_well_formed a" and wb: "run_well_formed b" and lb: "1 \<le> lvl b"
    and hb: "hd (str_of b) \<noteq> CHR ''+''"
    using Add.prems by simp_all
  obtain k' where k: "k = Suc k'" using Add.prems(1) by (cases k) auto
  let ?I = "pre @ str_of a @ replicate (Suc k') CHR ''+'' @ str_of b @ post"
  have t0: "top_ok 0 s" using Add.prems(2) by simp
  have "scan_loop ?I r s (length pre)
      = scan_loop ?I (r @ front a) (pend a @ s) (length pre + length (str_of a))"
    using Add.IH(1) [of s pre "replicate (Suc k') CHR ''+'' @ str_of b @ post" r] wa Add.prems(3)
      top_ok_mono [where l = 0 and l' = "lvl a" and s = s] t0
    by (simp add: follow_ok_def)
  also have "\<dots> = scan_loop ?I (r @ front a @ map PStr (pend a)) (''+'' # s)
      (length pre + length (str_of a) + Suc k')"
    using loop_plus [OF not_operand_pos_after [OF wa, of pre] _ pend_plus [OF wa] top_ok_plus [OF t0],
        of "str_of b @ post" k' "r @ front a"]
      str_of_first [OF wb] hb
    by simp
  also have "\<dots> = scan_loop ?I (r @ front a @ map PStr (pend a) @ front b) (pend b @ ''+'' # s)
      (length pre + length (str_of a) + Suc k' + length (str_of b))"
    using Add.IH(2) [of "''+'' # s" "pre @ str_of a @ replicate (Suc k') CHR ''+''" post "r @ front a @ map PStr (pend a)"]
      wb top_ok_mono [where l = 1 and l' = "lvl b" and s = "''+'' # s"] top_ok_push(2) [of s] lb Add.prems(4)
      operand_pos_run [of "CHR ''+''" "pre @ str_of a" k']
    by (simp add: add.assoc)
  finally show ?case by (simp add: postfix_front_pend k add.assoc)
next
  case (Sub k a b)
  have wa: "run_well_formed a" and wb: "run_well_formed b" and lb: "1 \<le> lvl b"
    and hb: "hd (str_of b) \<noteq> CHR ''-''"
    using Sub.prems by simp_all
  obtain k' where k: "k = Suc k'" using Sub.prems(1) by (cases k) auto
  let ?I = "pre @ str_of a @ replicate (Suc k') CHR ''-'' @ str_of b @ post"
  let ?o = "if odd (Suc k') then ''-'' else ''+''"
  have t0: "top_ok 0 s" using Sub.prems(2) by simp
  have t1: "top_ok 1 (?o # s)" using top_ok_push(2,3) [of s] by simp
  have "scan_loop ?I r s (length pre)
      = scan_loop ?I (r @ front a) (pend a @ s) (length pre + length (str_of a))"
    using Sub.IH(1) [of s pre "replicate (Suc k') CHR ''-'' @ str_of b @ post" r] wa Sub.prems(3)
      top_ok_mono [where l = 0 and l' = "lvl a" and s = s] t0
    by (simp add: follow_ok_def)
  also have "\<dots> = scan_loop ?I (r @ front a @ map PStr (pend a)) (?o # s)
      (length pre + length (str_of a) + Suc k')"
    using loop_minus [OF not_operand_pos_after [OF wa, of pre] _ pend_plus [OF wa] top_ok_plus [OF t0],
        of "str_of b @ post" k' "r @ front a"]
      str_of_first [OF wb] hb
    by simp
  also have "\<dots> = scan_loop ?I (r @ front a @ map PStr (pend a) @ front b) (pend b @ ?o # s)
      (length pre + length (str_of a) + Suc k' + length (str_of b))"
    using Sub.IH(2) [of "?o # s" "pre @ str_of a @ replicate (Suc k') CHR ''-''" post "r @ front a @ map PStr (pend a)"]
      wb top_ok_mono [where l = 1 and l' = "lvl b" and s = "?o # s"] t1 lb Sub.prems(4)
      operand_pos_run [of "CHR ''-''" "pre @ str_of a" k']
    by (simp add: add.assoc)
  finally show ?case by (simp add: postfix_front_pend k add.assoc)
qed

subsection \<open>Conversion and evaluation of a whole expression\<close>

lemma drain_ops: "\<forall>x \<in> set ops. x \<noteq> ''('' \<Longrightarrow> drain r ops = Inr (r @ map PStr ops)"
  by (induction ops arbitrary: r) auto

lemma infix_to_rpn_well_formed:
  assumes "run_well_formed e"
  shows "infix_to_rpn (str_of e) = Some (Inr (postfix e))"
proof -
  have t: "top_ok (lvl e) []" by (simp add: top_ok_def)
  have "scan_loop (str_of e) [] [] 0
      = scan_loop (str_of e) (front e) (pend e) (length (str_of e))"
    using convert_expr [OF assms t, of "[]" "[]" "[]"]
    by (simp add: operand_pos_def follow_ok_def)
  also have "\<dots> = Some (drain (front e) (pend e))"
    by (rule scan_loop_end) simp
  also have "\<dots> = Some (Inr (postfix e))"
    using drain_ops [OF pend_no_paren [OF assms]] by (simp add: postfix_front_pend)
  finally show ?thesis by (simp add: infix_to_rpn_def)
qed

lemma rpn_loop_postfix:
  "run_value e = Some v \<Longrightarrow>
   rpn_loop nm variables stack (postfix e @ rest) = rpn_loop nm variables (PInt v # stack) rest"
proof (induction e arbitrary: v stack rest)
  case (Lit ds)
  then show ?case by simp
next
  case (Paren e)
  then show ?case by simp
next
  case (Pow a b)
  from Pow.prems obtain x y where x: "run_value a = Some x" and y: "run_value b = Some y"
    and p: "0 \<le> y" and v: "v = x ^ nat y"
    by (auto split: option.splits if_splits)
  show ?case
    using Pow.IH(1) [OF x, of stack "postfix b @ PStr ''^'' # rest"]
      Pow.IH(2) [OF y, of "PInt x # stack" "PStr ''^'' # rest"] p v
    by simp
next
  case (Neg a)
  from Neg.prems obtain x where x: "run_value a = Some x" and v: "v = - x"
    by (auto split: option.splits)
  show ?case
    using Neg.IH [OF x, of stack "PStr ''#'' # rest"] v by simp
next
  case (Pos a)
  then show ?case by simp
next
  case (Mul a b)
  from Mul.prems obtain x y where x: "run_value a = Some x" and y: "run_value b = Some y"
    and v: "v = x * y"
    by (auto split: option.splits)
  show ?case
    using Mul.IH(1) [OF x, of stack "postfix b @ PStr ''*'' # rest"]
      Mul.IH(2) [OF y, of "PInt x # stack" "PStr ''*'' # rest"] v
    by (simp add: mult.commute)
next
  case (Div a b)
  from Div.prems obtain x y where x: "run_value a = Some x" and y: "run_value b = Some y"
    and n: "y \<noteq> 0" and v: "v = x div y"
    by (auto split: option.splits if_splits)
  show ?case
    using Div.IH(1) [OF x, of stack "postfix b @ PStr ''/'' # rest"]
      Div.IH(2) [OF y, of "PInt x # stack" "PStr ''/'' # rest"] n v
    by simp
next
  case (Add k a b)
  from Add.prems obtain x y where x: "run_value a = Some x" and y: "run_value b = Some y"
    and v: "v = x + y"
    by (auto split: option.splits)
  show ?case
    using Add.IH(1) [OF x, of stack "postfix b @ PStr ''+'' # rest"]
      Add.IH(2) [OF y, of "PInt x # stack" "PStr ''+'' # rest"] v
    by (simp add: add.commute)
next
  case (Sub k a b)
  from Sub.prems obtain x y where x: "run_value a = Some x" and y: "run_value b = Some y"
    and v: "v = (if odd k then x - y else x + y)"
    by (auto split: option.splits)
  show ?case
    using Sub.IH(1) [OF x, of stack "postfix b @ PStr (if odd k then ''-'' else ''+'') # rest"]
      Sub.IH(2) [OF y, of "PInt x # stack" "PStr (if odd k then ''-'' else ''+'') # rest"] v
    by (simp add: add.commute)
qed

lemma rpn_to_result_postfix:
  "run_value e = Some v \<Longrightarrow> rpn_to_result nm variables (postfix e) = Inr (PInt v)"
  using rpn_loop_postfix [where stack = "[]" and rest = "[]"] by (simp add: rpn_to_result_def)

lemma parse_expression_well_formed:
  "run_well_formed e \<Longrightarrow> run_value e = Some v \<Longrightarrow>
   parse_expression nm variables (str_of e) = Some (Inr (PInt v))"
  by (simp add: parse_expression_def infix_to_rpn_well_formed rpn_to_result_postfix)


subsection \<open>Arithmetic expressions as trees with sign runs\<close>





section \<open>The claims\<close>




text \<open>
  C2 (the code departs from the claim). The claim: when \<^verbatim>\<open>^\<close> is read, every stack-top
  operator that is \<^verbatim>\<open>^\<close> or \<^verbatim>\<open>#\<close> is emitted before \<^verbatim>\<open>^\<close> is pushed, so a \<^verbatim>\<open>#\<close> on
  top of the stack comes out before a following \<^verbatim>\<open>^\<close>. Line 156 compares the stack top
  with the two-character string \<^verbatim>\<open>"^#"\<close>, which no stack entry equals, so nothing is
  popped: for \<^verbatim>\<open>-2^2\<close> the \<^verbatim>\<open>#\<close> stays below \<^verbatim>\<open>^\<close> and is emitted after it, and the
  value is \<open>-4\<close>, not \<open>4\<close>.
\<close>

theorem power_pops_nothing:
  "infix_to_rpn ''-2^2'' = Some (Inr [PInt 2, PInt 2, PStr ''^'', PStr ''#''])
   \<and> parse_expression nm variables ''-2^2'' = Some (Inr (PInt (- 4)))
   \<and> pop_while (\<lambda>s. s = ''^#'') result (''#'' # stack) = (result, ''#'' # stack)
   \<and> pop_while (\<lambda>s. s = ''^#'') result (''^'' # stack) = (result, ''^'' # stack)"
proof -
  have "infix_to_rpn ''-2^2'' = Some (Inr [PInt 2, PInt 2, PStr ''^'', PStr ''#''])"
    by (simp add: eval_defs)
  moreover have "parse_expression nm variables ''-2^2'' = Some (Inr (PInt (- 4)))"
    by (simp add: eval_defs)
  ultimately show ?thesis by simp
qed

text \<open>
  C3 (the code departs from the claim). The claim: every value stored in the variable
  table is an integer. For the line \<^verbatim>\<open>a=()\<close> the right-hand side converts to the empty
  postfix list, \<^verbatim>\<open>rpn_to_result\<close> returns the empty string, and \<^verbatim>\<open>parse_assignment\<close>,
  which only filters the two error strings, stores it under \<^verbatim>\<open>a\<close> without a message;
  a later \<^verbatim>\<open>a+1\<close> then stops with a TypeError.
\<close>

theorem assignment_stores_empty_string:
  "parse_assignment nm Map.empty ''a=()'' = Some (Inr ([], [''a'' \<mapsto> PStr '''']))
   \<and> parse_expression nm [''a'' \<mapsto> PStr ''''] ''a+1'' = Some (Inl TypeError)"
proof -
  have "parse_assignment nm Map.empty ''a=()'' = Some (Inr ([], [''a'' \<mapsto> PStr '''']))"
    by (simp add: calc_defs)
  moreover have "parse_expression nm [''a'' \<mapsto> PStr ''''] ''a+1'' = Some (Inl TypeError)"
    by (simp add: calc_defs scan_integer.simps scan_name.simps skip_pluses.simps)
  ultimately show ?thesis by simp
qed

text \<open>
  C4 (as amended). The input \<^verbatim>\<open>-5+3\<close> evaluates to \<open>-2\<close>. The input \<^verbatim>\<open>--5\<close> is rejected
  with \<^verbatim>\<open>Invalid expression\<close>: the first \<^verbatim>\<open>-\<close> is a unary sign, and a unary sign must be
  followed at once by a digit, a letter or \<^verbatim>\<open>(\<close> (lines 83 to 86).
\<close>

theorem unary_at_start:
  "parse_expression nm variables ''-5+3'' = Some (Inr (PInt (- 2)))
   \<and> parse_expression nm variables ''--5'' = Some (Inr (PStr ''Invalid expression''))"
  by (simp add: eval_defs)

text \<open>The claim as written, that \<^verbatim>\<open>--5\<close> evaluates to \<open>5\<close>, fails.\<close>

theorem double_minus_at_start_counterexample:
  "\<forall>nm. parse_expression nm Map.empty ''--5'' = Some (Inr (PStr ''Invalid expression''))
     \<and> parse_expression nm Map.empty ''--5'' \<noteq> Some (Inr (PInt 5))"
proof
  fix nm
  show "parse_expression nm Map.empty ''--5'' = Some (Inr (PStr ''Invalid expression''))
     \<and> parse_expression nm Map.empty ''--5'' \<noteq> Some (Inr (PInt 5))"
    by (simp add: eval_defs)
qed

text \<open>
  C5. With integers \<open>a\<close> below \<open>b\<close> on the evaluation stack, \<^verbatim>\<open>/\<close> returns
  \<^verbatim>\<open>Invalid expression\<close> when \<open>b = 0\<close> and otherwise continues with the floor of \<open>a / b\<close>;
  no exception is raised. \<^verbatim>\<open>-7/2\<close> and \<^verbatim>\<open>7/-2\<close> give \<open>-4\<close>, \<^verbatim>\<open>7/2\<close> gives \<open>3\<close>,
  \<^verbatim>\<open>5/0\<close> gives \<^verbatim>\<open>Invalid expression\<close>.
\<close>

theorem floor_division:
  "rpn_loop nm variables (PInt b # PInt a # stack) (PStr ''/'' # rest) =
     (if b = 0 then Inr (PStr ''Invalid expression'')
      else rpn_loop nm variables (PInt \<lfloor>real_of_int a / real_of_int b\<rfloor> # stack) rest)
   \<and> rpn_to_result nm variables [PInt a, PInt b, PStr ''/''] =
     (if b = 0 then Inr (PStr ''Invalid expression'')
      else Inr (PInt \<lfloor>real_of_int a / real_of_int b\<rfloor>))
   \<and> parse_expression nm variables ''-7/2'' = Some (Inr (PInt (- 4)))
   \<and> parse_expression nm variables ''7/-2'' = Some (Inr (PInt (- 4)))
   \<and> parse_expression nm variables ''7/2'' = Some (Inr (PInt 3))
   \<and> parse_expression nm variables ''5/0'' = Some (Inr (PStr ''Invalid expression''))"
proof -
  have "parse_expression nm variables ''-7/2'' = Some (Inr (PInt (- 4)))" by (simp add: eval_defs)
  moreover have "parse_expression nm variables ''7/-2'' = Some (Inr (PInt (- 4)))" by (simp add: eval_defs)
  moreover have "parse_expression nm variables ''7/2'' = Some (Inr (PInt 3))" by (simp add: eval_defs)
  moreover have "parse_expression nm variables ''5/0'' = Some (Inr (PStr ''Invalid expression''))"
    by (simp add: eval_defs)
  ultimately show ?thesis
    by (simp add: rpn_to_result_def floor_divide_of_int_eq)
qed

text \<open>
  C6. For a line \<open>lhs=rhs\<close> whose left-hand side is a valid identifier: when the
  right-hand side is non-empty, is not an all-letters name missing from the table, and
  \<^verbatim>\<open>parse_expression\<close> returns \<^verbatim>\<open>Invalid expression\<close> or \<^verbatim>\<open>Unknown variable\<close> for it, the
  handler prints \<^verbatim>\<open>Invalid assignment\<close> and leaves the table as it was; when the
  right-hand side is an all-letters name missing from the table, it prints
  \<^verbatim>\<open>Unknown variable\<close> and leaves the table as it was.
\<close>

theorem assignment_masks_errors:
  "isalpha lhs \<Longrightarrow>
     (rhs \<noteq> [] \<and> \<not> (isalpha rhs \<and> variables rhs = None)
        \<and> (parse_expression nm variables rhs = Some (Inr (PStr ''Invalid expression''))
           \<or> parse_expression nm variables rhs = Some (Inr (PStr ''Unknown variable'')))
      \<longrightarrow> parse_assignment nm variables (lhs @ ''='' @ rhs)
            = Some (Inr ([''Invalid assignment''], variables)))
   \<and> (isalpha rhs \<and> variables rhs = None
      \<longrightarrow> parse_assignment nm variables (lhs @ ''='' @ rhs)
            = Some (Inr ([''Unknown variable''], variables)))"
proof -
  assume l: "isalpha lhs"
  then have s: "split_eq (lhs @ CHR ''='' # rhs) = [lhs, rhs]"
    by (simp add: split_eq_append isalpha_no_eq)
  from l have ne: "lhs \<noteq> []" by (simp add: isalpha_def)
  have r: "isalpha rhs \<longrightarrow> rhs \<noteq> []" by (simp add: isalpha_def)
  have "parse_assignment nm variables (lhs @ CHR ''='' # rhs) =
      (if rhs = [] then Some (Inr ([''Invalid assignment''], variables))
       else if isalpha rhs \<and> variables rhs = None
         then Some (Inr ([''Unknown variable''], variables))
       else
        (case parse_expression nm variables rhs of None \<Rightarrow> None
         | Some (Inl e) \<Rightarrow> Some (Inl e)
         | Some (Inr result) \<Rightarrow>
             if result = PStr ''Invalid expression'' \<or> result = PStr ''Unknown variable''
             then Some (Inr ([''Invalid assignment''], variables))
             else Some (Inr ([], variables(lhs \<mapsto> result)))))"
    by (simp add: parse_assignment_def s Let_def l ne split: option.splits sum.splits)
  then have p: "parse_assignment nm variables (lhs @ ''='' @ rhs) =
      (if rhs = [] then Some (Inr ([''Invalid assignment''], variables))
       else if isalpha rhs \<and> variables rhs = None
         then Some (Inr ([''Unknown variable''], variables))
       else
        (case parse_expression nm variables rhs of None \<Rightarrow> None
         | Some (Inl e) \<Rightarrow> Some (Inl e)
         | Some (Inr result) \<Rightarrow>
             if result = PStr ''Invalid expression'' \<or> result = PStr ''Unknown variable''
             then Some (Inr ([''Invalid assignment''], variables))
             else Some (Inr ([], variables(lhs \<mapsto> result)))))"
    by simp
  show ?thesis
  proof (intro conjI impI)
    assume "rhs \<noteq> [] \<and> \<not> (isalpha rhs \<and> variables rhs = None)
        \<and> (parse_expression nm variables rhs = Some (Inr (PStr ''Invalid expression''))
           \<or> parse_expression nm variables rhs = Some (Inr (PStr ''Unknown variable'')))"
    then show "parse_assignment nm variables (lhs @ ''='' @ rhs)
            = Some (Inr ([''Invalid assignment''], variables))"
      unfolding p by auto
  next
    assume "isalpha rhs \<and> variables rhs = None"
    with r show "parse_assignment nm variables (lhs @ ''='' @ rhs)
            = Some (Inr ([''Unknown variable''], variables))"
      unfolding p by simp
  qed
qed

theorem assignment_masks_errors_witness:
  "\<forall>nm.
     parse_assignment nm Map.empty ''a=2**3'' = Some (Inr ([''Invalid assignment''], Map.empty))
     \<and> parse_assignment nm Map.empty ''a=b+1'' = Some (Inr ([''Invalid assignment''], Map.empty))
     \<and> parse_assignment nm Map.empty ''a=5/0'' = Some (Inr ([''Invalid assignment''], Map.empty))
     \<and> parse_assignment nm Map.empty ''a=b'' = Some (Inr ([''Unknown variable''], Map.empty))
     \<and> parse_assignment nm Map.empty ([CHR 0xE9] @ ''='' @ [CHR 0xE9])
         = Some (Inr ([''Unknown variable''], Map.empty))"
proof
  fix nm
  have a: "isalpha ''a''" by (simp add: isalpha_def unicode_letter_def)
  have b: "isalpha ''b''" by (simp add: isalpha_def unicode_letter_def)
  have e: "isalpha [CHR 0xE9]" by (simp add: isalpha_def unicode_letter_def)
  have n1: "\<not> isalpha ''2**3''" by (simp add: isalpha_def unicode_letter_def)
  have n2: "\<not> isalpha ''b+1''" by (simp add: isalpha_def unicode_letter_def)
  have n3: "\<not> isalpha ''5/0''" by (simp add: isalpha_def unicode_letter_def)
  have e1: "parse_expression nm Map.empty ''2**3'' = Some (Inr (PStr ''Invalid expression''))"
    by (simp add: eval_defs)
  have e2: "parse_expression nm Map.empty ''b+1'' = Some (Inr (PStr ''Unknown variable''))"
    by (simp add: eval_defs)
  have e3: "parse_expression nm Map.empty ''5/0'' = Some (Inr (PStr ''Invalid expression''))"
    by (simp add: eval_defs)
  from assignment_masks_errors [OF a, where rhs = "''2**3''" and variables = Map.empty
      and nm = nm] n1 e1
  have 1: "parse_assignment nm Map.empty ''a=2**3''
      = Some (Inr ([''Invalid assignment''], Map.empty))"
    by simp
  from assignment_masks_errors [OF a, where rhs = "''b+1''" and variables = Map.empty
      and nm = nm] n2 e2
  have 2: "parse_assignment nm Map.empty ''a=b+1''
      = Some (Inr ([''Invalid assignment''], Map.empty))"
    by simp
  from assignment_masks_errors [OF a, where rhs = "''5/0''" and variables = Map.empty
      and nm = nm] n3 e3
  have 3: "parse_assignment nm Map.empty ''a=5/0''
      = Some (Inr ([''Invalid assignment''], Map.empty))"
    by simp
  from assignment_masks_errors [OF a, where rhs = "''b''" and variables = Map.empty
      and nm = nm] b
  have 4: "parse_assignment nm Map.empty ''a=b'' = Some (Inr ([''Unknown variable''], Map.empty))"
    by simp
  from assignment_masks_errors [OF e, where rhs = "[CHR 0xE9]" and variables = Map.empty
      and nm = nm] e
  have 5: "parse_assignment nm Map.empty ([CHR 0xE9] @ ''='' @ [CHR 0xE9])
      = Some (Inr ([''Unknown variable''], Map.empty))"
    by simp
  from 1 2 3 4 5
  show "parse_assignment nm Map.empty ''a=2**3'' = Some (Inr ([''Invalid assignment''], Map.empty))
     \<and> parse_assignment nm Map.empty ''a=b+1'' = Some (Inr ([''Invalid assignment''], Map.empty))
     \<and> parse_assignment nm Map.empty ''a=5/0'' = Some (Inr ([''Invalid assignment''], Map.empty))
     \<and> parse_assignment nm Map.empty ''a=b'' = Some (Inr ([''Unknown variable''], Map.empty))
     \<and> parse_assignment nm Map.empty ([CHR 0xE9] @ ''='' @ [CHR 0xE9])
         = Some (Inr ([''Unknown variable''], Map.empty))"
    by simp
qed

text \<open>
  A right-hand side that leaves the integers is followed as the code runs it. In
  \<^verbatim>\<open>a=2^-1/0\<close> the power returns a number that is not an int, the division by \<open>0\<close> then
  returns \<^verbatim>\<open>Invalid expression\<close>, and the handler prints \<^verbatim>\<open>Invalid assignment\<close>. The
  line \<^verbatim>\<open>a=2^-1\<close> stores that number under \<^verbatim>\<open>a\<close>.
\<close>

lemma assignment_after_negative_power:
  assumes "num_arith nm CHR ''^'' (PInt 2) (PInt (- 1)) = Inr (PNum f)"
  shows "parse_expression nm variables ''2^-1/0'' = Some (Inr (PStr ''Invalid expression''))"
    and "parse_assignment nm variables ''a=2^-1/0''
           = Some (Inr ([''Invalid assignment''], variables))"
    and "parse_assignment nm variables ''a=2^-1'' = Some (Inr ([], variables(''a'' \<mapsto> PNum f)))"
proof -
  have c1: "infix_to_rpn ''2^-1/0''
      = Some (Inr [PInt 2, PInt 1, PStr ''#'', PStr ''^'', PInt 0, PStr ''/''])"
    by (simp add: eval_defs)
  have c2: "infix_to_rpn ''2^-1'' = Some (Inr [PInt 2, PInt 1, PStr ''#'', PStr ''^''])"
    by (simp add: eval_defs)
  show "parse_expression nm variables ''2^-1/0'' = Some (Inr (PStr ''Invalid expression''))"
    using assms by (simp add: parse_expression_def c1 rpn_to_result_def)
  show "parse_assignment nm variables ''a=2^-1/0''
           = Some (Inr ([''Invalid assignment''], variables))"
    using assms
    by (simp add: parse_assignment_def split_eq_def isalpha_def unicode_letter_def
        parse_expression_def c1 rpn_to_result_def)
  show "parse_assignment nm variables ''a=2^-1'' = Some (Inr ([], variables(''a'' \<mapsto> PNum f)))"
    using assms
    by (simp add: parse_assignment_def split_eq_def isalpha_def unicode_letter_def
        parse_expression_def c2 rpn_to_result_def)
qed

text \<open>
  C7. In the evaluator: \<^verbatim>\<open>#\<close> on an empty stack returns \<^verbatim>\<open>Invalid expression\<close>; a
  binary operator on a stack of fewer than two values returns \<^verbatim>\<open>Invalid expression\<close>;
  more than one value left on the stack when the scan ends returns
  \<^verbatim>\<open>Invalid expression\<close>; the empty postfix list returns the empty string, which is not
  one of the error strings.
\<close>

theorem evaluator_errors:
  "rpn_loop nm variables [] (PStr ''#'' # rest) = Inr (PStr ''Invalid expression'')
   \<and> (op \<in> {''+'', ''-'', ''*'', ''/'', ''^''} \<and> length stack < 2
        \<longrightarrow> rpn_loop nm variables stack (PStr op # rest) = Inr (PStr ''Invalid expression''))
   \<and> (length stack > 1 \<longrightarrow> rpn_loop nm variables stack [] = Inr (PStr ''Invalid expression''))
   \<and> rpn_to_result nm variables [] = Inr (PStr '''')"
proof -
  have "length stack < 2 \<Longrightarrow> (\<exists>x. stack = [x]) \<or> stack = []"
    by (cases stack; cases "tl stack") auto
  then show ?thesis
    by (auto simp: rpn_to_result_def)
qed

theorem evaluator_errors_witness:
  "\<forall>nm. rpn_loop nm Map.empty [] [PStr ''#''] = Inr (PStr ''Invalid expression'')
     \<and> rpn_loop nm Map.empty [PInt 1] [PStr ''+'', PInt 2] = Inr (PStr ''Invalid expression'')
     \<and> rpn_loop nm Map.empty [PInt 2, PInt 1] [] = Inr (PStr ''Invalid expression'')
     \<and> rpn_to_result nm Map.empty [PInt 1, PInt 2] = Inr (PStr ''Invalid expression'')
     \<and> rpn_to_result nm Map.empty [] = Inr (PStr '''')"
proof
  fix nm
  from evaluator_errors [where nm = nm and variables = Map.empty and rest = "[PInt 2]"
      and op = "''+''" and stack = "[PInt 1]"]
    evaluator_errors [where nm = nm and variables = Map.empty and rest = "[]"
      and op = "''+''" and stack = "[PInt 2, PInt 1]"]
  show "rpn_loop nm Map.empty [] [PStr ''#''] = Inr (PStr ''Invalid expression'')
     \<and> rpn_loop nm Map.empty [PInt 1] [PStr ''+'', PInt 2] = Inr (PStr ''Invalid expression'')
     \<and> rpn_loop nm Map.empty [PInt 2, PInt 1] [] = Inr (PStr ''Invalid expression'')
     \<and> rpn_to_result nm Map.empty [PInt 1, PInt 2] = Inr (PStr ''Invalid expression'')
     \<and> rpn_to_result nm Map.empty [] = Inr (PStr '''')"
    by (simp add: rpn_to_result_def)
qed

text \<open>
  C8. The input \<^verbatim>\<open>2^3^2\<close> converts to the postfix list \<open>2 3 2 ^ ^\<close> and evaluates to
  \<open>512\<close>, that is \<open>2^(3^2)\<close>: the rightmost power is applied first. The same holds for
  any \<open>a^b^c\<close> that the calculator reads as a power of a power (\<open>run_well_formed\<close>) and
  whose value is defined. The evaluator takes the stack top as the exponent and the
  value below it as the base.
\<close>

theorem power_right_associative:
  "parse_expression nm variables ''2^3^2'' = Some (Inr (PInt 512))
   \<and> infix_to_rpn ''2^3^2'' = Some (Inr [PInt 2, PInt 3, PInt 2, PStr ''^'', PStr ''^''])
   \<and> (run_well_formed (Pow a (Pow b c)) \<and> run_value a = Some x \<and> run_value b = Some y
        \<and> run_value c = Some z \<and> 0 \<le> z \<and> 0 \<le> y ^ nat z
      \<longrightarrow> infix_to_rpn (str_of a @ ''^'' @ str_of b @ ''^'' @ str_of c)
            = Some (Inr (postfix a @ postfix b @ postfix c @ [PStr ''^'', PStr ''^'']))
          \<and> parse_expression nm variables (str_of a @ ''^'' @ str_of b @ ''^'' @ str_of c)
            = Some (Inr (PInt (x ^ nat (y ^ nat z)))))
   \<and> (0 \<le> p \<longrightarrow> rpn_loop nm variables (PInt p # PInt q # stack) (PStr ''^'' # rest)
                  = rpn_loop nm variables (PInt (q ^ nat p) # stack) rest)"
proof -
  have "parse_expression nm variables ''2^3^2'' = Some (Inr (PInt 512))" by (simp add: eval_defs)
  moreover have
    "infix_to_rpn ''2^3^2'' = Some (Inr [PInt 2, PInt 3, PInt 2, PStr ''^'', PStr ''^''])"
    by (simp add: eval_defs)
  moreover have
    "infix_to_rpn (str_of a @ ''^'' @ str_of b @ ''^'' @ str_of c)
            = Some (Inr (postfix a @ postfix b @ postfix c @ [PStr ''^'', PStr ''^'']))
     \<and> parse_expression nm variables (str_of a @ ''^'' @ str_of b @ ''^'' @ str_of c)
            = Some (Inr (PInt (x ^ nat (y ^ nat z))))"
    if w: "run_well_formed (Pow a (Pow b c))" and x: "run_value a = Some x"
      and y: "run_value b = Some y" and z: "run_value c = Some z"
      and nz: "0 \<le> z" and ny: "0 \<le> y ^ nat z"
  proof -
    from x y z nz ny have "run_value (Pow a (Pow b c)) = Some (x ^ nat (y ^ nat z))"
      by simp
    from infix_to_rpn_well_formed [OF w] parse_expression_well_formed [OF w this, of nm variables]
    show ?thesis by simp
  qed
  ultimately show ?thesis by simp
qed

theorem power_right_associative_witness:
  "\<forall>nm. parse_expression nm Map.empty ''2^3^2'' = Some (Inr (PInt (2 ^ (3 ^ 2))))
     \<and> parse_expression nm Map.empty ''10^2^3'' = Some (Inr (PInt (10 ^ (2 ^ 3))))
     \<and> rpn_loop nm Map.empty [PInt 2, PInt 3] [PStr ''^''] = Inr (PInt 9)"
proof
  fix nm
  have w: "run_well_formed (Pow (Lit ''10'') (Pow (Lit ''2'') (Lit ''3'')))"
    by (simp add: digits_def)
  have v: "run_value (Lit ''10'') = Some 10" "run_value (Lit ''2'') = Some 2"
    "run_value (Lit ''3'') = Some 3"
    by (simp_all add: lit_value_def int_of_digit_def)
  from power_right_associative
    [where nm = nm and variables = Map.empty and a = "Lit ''10''" and b = "Lit ''2''"
      and c = "Lit ''3''" and x = 10 and y = 2 and z = 3 and p = 2 and q = 3
      and stack = "[]" and rest = "[]"] w v
  show "parse_expression nm Map.empty ''2^3^2'' = Some (Inr (PInt (2 ^ (3 ^ 2))))
     \<and> parse_expression nm Map.empty ''10^2^3'' = Some (Inr (PInt (10 ^ (2 ^ 3))))
     \<and> rpn_loop nm Map.empty [PInt 2, PInt 3] [PStr ''^''] = Inr (PInt 9)"
    by simp
qed

text \<open>
  C9. A run of \<open>k \<ge> 1\<close> minus signs read by the operator branch pushes one operator,
  \<^verbatim>\<open>+\<close> for even \<open>k\<close> and \<^verbatim>\<open>-\<close> for odd \<open>k\<close>, and moves the index past the whole run.
  Between two operands (\<open>run_well_formed\<close>, the right one a product or tighter that
  does not begin with a minus sign) the run therefore gives their sum for even \<open>k\<close> and
  their difference for odd \<open>k\<close>; \<^verbatim>\<open>2---2\<close> evaluates to \<open>0\<close> and \<^verbatim>\<open>2----2\<close> to \<open>4\<close>.
\<close>

theorem minus_run_parity:
  assumes "1 \<le> k"
  shows "(post = [] \<or> hd post \<noteq> CHR ''-'' \<longrightarrow>
            operator (pre @ replicate k CHR ''-'' @ post) (result, stack, length pre)
            = (case pop_while (\<lambda>s. str_in s ''+-*/^#'') result stack of
                 (result', stack') \<Rightarrow>
                   Inr (result', (if even k then ''+'' else ''-'') # stack', length pre + k)))
       \<and> (run_well_formed a \<and> run_well_formed b \<and> 1 \<le> lvl b \<and> hd (str_of b) \<noteq> CHR ''-''
            \<and> run_value a = Some x \<and> run_value b = Some y \<longrightarrow>
            infix_to_rpn (str_of a @ replicate k CHR ''-'' @ str_of b)
              = Some (Inr (postfix a @ postfix b @ [PStr (if even k then ''+'' else ''-'')]))
            \<and> parse_expression nm variables (str_of a @ replicate k CHR ''-'' @ str_of b)
              = Some (Inr (PInt (if even k then x + y else x - y))))"
proof (intro conjI impI)
  obtain k' where k: "k = Suc k'" using assms by (cases k) auto
  assume p: "post = [] \<or> hd post \<noteq> CHR ''-''"
  have "count_minuses (pre @ replicate (Suc k') CHR ''-'' @ post) (length pre) 0
      = (0 + Suc k', length pre + Suc k')"
    using p by (rule count_minuses_append)
  moreover have "(Suc k' mod 2 \<noteq> 0) = (\<not> even (Suc k'))" by presburger
  ultimately show "operator (pre @ replicate k CHR ''-'' @ post) (result, stack, length pre)
            = (case pop_while (\<lambda>s. str_in s ''+-*/^#'') result stack of
                 (result', stack') \<Rightarrow>
                   Inr (result', (if even k then ''+'' else ''-'') # stack', length pre + k))"
    unfolding k by (simp add: operator_def split: prod.splits)
next
  assume h: "run_well_formed a \<and> run_well_formed b \<and> 1 \<le> lvl b \<and> hd (str_of b) \<noteq> CHR ''-''
            \<and> run_value a = Some x \<and> run_value b = Some y"
  with assms have w: "run_well_formed (Sub k a b)" by simp
  from h have v: "run_value (Sub k a b) = Some (if odd k then x - y else x + y)" by simp
  from infix_to_rpn_well_formed [OF w]
  show "infix_to_rpn (str_of a @ replicate k CHR ''-'' @ str_of b)
              = Some (Inr (postfix a @ postfix b @ [PStr (if even k then ''+'' else ''-'')]))"
    by simp
  from parse_expression_well_formed [OF w v, of nm variables]
  show "parse_expression nm variables (str_of a @ replicate k CHR ''-'' @ str_of b)
              = Some (Inr (PInt (if even k then x + y else x - y)))"
    by simp
qed

theorem minus_run_parity_witness:
  "\<forall>nm. parse_expression nm Map.empty ''2---2'' = Some (Inr (PInt 0))
     \<and> parse_expression nm Map.empty ''2----2'' = Some (Inr (PInt 4))
     \<and> operator ''2---2'' ([PInt 2], [], 1) = Inr ([PInt 2], [''-''], 4)
     \<and> operator ''2----2'' ([PInt 2], [], 1) = Inr ([PInt 2], [''+''], 5)"
proof
  fix nm
  have w: "run_well_formed (Lit ''2'')" by (simp add: digits_def)
  have v: "run_value (Lit ''2'') = Some 2" by (simp add: lit_value_def int_of_digit_def)
  have k3: "(1::nat) \<le> 3" and k4: "(1::nat) \<le> 4" by simp_all
  have r3: "replicate 3 CHR ''-'' = ''---''" and r4: "replicate 4 CHR ''-'' = ''----''"
    by (simp_all add: numeral_eq_Suc)
  from minus_run_parity [OF k3, where post = "''2''" and pre = "''2''" and result = "[PInt 2]"
      and stack = "[]" and a = "Lit ''2''" and b = "Lit ''2''" and x = 2 and y = 2
      and nm = nm and variables = Map.empty] w v
  have 3: "parse_expression nm Map.empty ''2---2'' = Some (Inr (PInt 0))
      \<and> operator ''2---2'' ([PInt 2], [], 1) = Inr ([PInt 2], [''-''], 4)"
    by (simp add: r3)
  from minus_run_parity [OF k4, where post = "''2''" and pre = "''2''" and result = "[PInt 2]"
      and stack = "[]" and a = "Lit ''2''" and b = "Lit ''2''" and x = 2 and y = 2
      and nm = nm and variables = Map.empty] w v
  have 4: "parse_expression nm Map.empty ''2----2'' = Some (Inr (PInt 4))
      \<and> operator ''2----2'' ([PInt 2], [], 1) = Inr ([PInt 2], [''+''], 5)"
    by (simp add: r4)
  from 3 4
  show "parse_expression nm Map.empty ''2---2'' = Some (Inr (PInt 0))
     \<and> parse_expression nm Map.empty ''2----2'' = Some (Inr (PInt 4))
     \<and> operator ''2---2'' ([PInt 2], [], 1) = Inr ([PInt 2], [''-''], 4)
     \<and> operator ''2----2'' ([PInt 2], [], 1) = Inr ([PInt 2], [''+''], 5)"
    by simp
qed

text \<open>
  C10. The conversion returns on every input string: a pass through the body of the scan
  loop, entered with the index inside the string, returns \<^verbatim>\<open>Error\<close> or leaves the index
  strictly larger.
\<close>

theorem infix_to_rpn_terminates:
  "(\<exists>out. infix_to_rpn infx = Some out)
   \<and> (\<forall>result stack i. i < length infx \<longrightarrow>
        (case scan_step infx (result, stack, i) of
           Inl e \<Rightarrow> e = Error
         | Inr (result', stack', i') \<Rightarrow> i < i'))"
proof -
  have "\<exists>out. infix_to_rpn infx = Some out"
    unfolding infix_to_rpn_def by (rule scan_loop_total)
  moreover have "case scan_step infx (result, stack, i) of
           Inl e \<Rightarrow> e = Error
         | Inr (result', stack', i') \<Rightarrow> i < i'" if "i < length infx" for result stack i
  proof (cases "scan_step infx (result, stack, i)")
    case (Inl e)
    then show ?thesis by (cases e) simp
  next
    case (Inr st')
    obtain r' s' i' where "st' = (r', s', i')" by (cases st') auto
    with Inr scan_step_progress [OF that] show ?thesis by auto
  qed
  ultimately show ?thesis by blast
qed

theorem infix_to_rpn_terminates_witness:
  "(\<exists>out. infix_to_rpn ''2+3*4'' = Some out)
   \<and> scan_step ''2+3*4'' ([], [], 0) = Inr ([PInt 2], [''+''], 2)
   \<and> (0::nat) < 2"
proof -
  have s: "scan_step ''2+3*4'' ([], [], 0) = Inr ([PInt 2], [''+''], 2)"
    by (simp add: eval_defs)
  from infix_to_rpn_terminates [of "''2+3*4''"] s show ?thesis by simp
qed

end
